theory Spec2Isabelle
  imports Complex_Main "HOL-Library.Word" "HOL-Library.Signed_Division"
begin

unbundle bit_operations_syntax

section \<open>Common definitions (include/isomesh/common.hpp)\<close>

text \<open>
  The voxel material enumeration. \<open>Count\<close> is an enumerator of the C++ enum although it
  is "not a material".
\<close>

datatype Material = Empty | Stone | Soil | Count

text \<open>
  \<open>glm::vec\<close> with three components. \<open>glm::ivec3\<close> is \<open>int vec3\<close>; \<open>glm::dvec3\<close> is
  \<open>'d vec3\<close>, where \<open>'d\<close> stands for \<open>double\<close>. The sampling and crossing-detection
  code only adds doubles and compares them with zero, so it is modelled over any type that
  has these operations (no law is assumed of them; in particular \<open>v \<le> 0\<close> and \<open>0 < v\<close> may
  both be false, as for a NaN). The offset computation is studied over an ordered field,
  without rounding.
\<close>

record 'a vec3 =
  vx :: 'a
  vy :: 'a
  vz :: 'a

text \<open>
  \<open>uint32_t\<close> is a 32-bit word: its arithmetic wraps around. An \<open>int32_t\<close> value is an
  integer of the range \<open>[-2\<^sup>3\<^sup>1, 2\<^sup>3\<^sup>1)\<close>. The signed sums \<open>coordinate + m_halfSize\<close> of
  \<open>pointToIndex\<close> are converted to \<open>uint32_t\<close> at once, where the wrapped and the exact sum
  agree; the other signed operations (the differences of \<open>indexToPoint\<close>, the loop counters
  of \<open>fill\<close>, the negations \<open>-m_halfSize\<close>) stay within a few thousand. \<open>glm::abs\<close>
  negates a negative argument in 32 bits: the most negative \<open>int32_t\<close> has no positive
  counterpart, the negation wraps around and returns it unchanged, so its "absolute value"
  is negative.
\<close>

type_synonym uint32 = "32 word"

definition uint32_t :: "int \<Rightarrow> uint32" where
  "uint32_t v = word_of_int v"

definition int32_t :: "uint32 \<Rightarrow> int" where
  "int32_t w = sint w"

definition glm_abs :: "int \<Rightarrow> int" where
  "glm_abs v = (if v \<ge> 0 then v else int32_t (uint32_t (- v)))"

section \<open>The uniform grid (src/data/grid.cpp)\<close>

text \<open>
  One entry of an edge-crossing collection: the arguments of one call
  \<open>addEdge (x, y, z, grad, offset, axis, sign1, mat)\<close>, in call order. The edge storage
  class itself is declared outside the modelled sources; a collection is modelled as the
  list of the calls made on it since the last \<open>clear ()\<close>.
\<close>

record 'd edge =
  e_x :: int
  e_y :: int
  e_z :: int
  e_grad :: "'d vec3"
  e_offset :: 'd
  e_axis :: nat
  e_sign1 :: bool
  e_mat :: Material

record 'd UniformGrid =
  m_size :: uint32
  m_halfSize :: int
  m_globalPos :: "'d vec3"
  m_gridStep :: 'd
  m_mat :: "Material list"
  m_edgeX :: "'d edge list"
  m_edgeY :: "'d edge list"
  m_edgeZ :: "'d edge list"

text \<open>The exceptions thrown by the constructor, with their messages.\<close>

datatype exn = invalid_argument string | length_error string

text \<open>
  The constructor. The member initialisers run first (\<open>m_halfSize\<close> is the truncating
  signed division \<open>int32_t (size) / 2\<close>), then the three checks in source order, then the
  allocation of the material array, whose length is computed in \<open>uint32_t\<close>. The array is
  not initialised by \<open>new Material[n]\<close>: \<open>heap\<close> gives the indeterminate contents.
\<close>

definition UniformGrid_new ::
  "uint32 \<Rightarrow> 'd vec3 \<Rightarrow> 'd \<Rightarrow> (nat \<Rightarrow> Material) \<Rightarrow> exn + 'd UniformGrid" where
  "UniformGrid_new sz globalPos gridStep heap =
     (if sz < 2 then Inl (invalid_argument ''Grid size should be at least two'')
      else if sz AND (sz - 1) \<noteq> 0 then Inl (invalid_argument ''Grid size is not a power of two'')
      else if sz > 1024 then Inl (length_error ''Too large grid size (> 1024)'')
      else Inr \<lparr> m_size = sz, m_halfSize = int32_t sz sdiv 2,
                 m_globalPos = globalPos, m_gridStep = gridStep,
                 m_mat = map heap [0 ..< unat ((sz + 1) * (sz + 1) * (sz + 1))],
                 m_edgeX = [], m_edgeY = [], m_edgeZ = [] \<rparr>)"

text \<open>
  The class invariant the constructor establishes and no member function changes: the
  size passed the three checks, \<open>m_halfSize\<close> is as initialised and the material array
  has the allocated length.
\<close>

definition grid_inv :: "'d UniformGrid \<Rightarrow> bool" where
  "grid_inv g \<longleftrightarrow>
     \<not> m_size g < 2 \<and> m_size g AND (m_size g - 1) = 0 \<and> \<not> m_size g > 1024 \<and>
     m_halfSize g = int32_t (m_size g) sdiv 2 \<and>
     length (m_mat g) = unat ((m_size g + 1) * (m_size g + 1) * (m_size g + 1))"

text \<open>A number is a power of two (the notion the constructor's bit test is compared with).\<close>

definition is_power_of_two :: "nat \<Rightarrow> bool" where
  "is_power_of_two n \<longleftrightarrow> (\<exists>k. n = 2 ^ k)"


text \<open>
  A failed \<open>assert\<close> and an access outside an array are results of the model: the
  assertions are modelled as active.
\<close>

datatype fault = AssertionFailed | OutOfBounds

subsection \<open>Addressing\<close>

definition isVertexInGrid :: "'d UniformGrid \<Rightarrow> int \<Rightarrow> int \<Rightarrow> int \<Rightarrow> bool" where
  "isVertexInGrid g x y z =
     (if glm_abs x > m_halfSize g then False
      else if glm_abs y > m_halfSize g then False
      else if glm_abs z > m_halfSize g then False
      else True)"

definition pointToIndex :: "'d UniformGrid \<Rightarrow> int \<Rightarrow> int \<Rightarrow> int \<Rightarrow> fault + uint32" where
  "pointToIndex g x y z =
     (if \<not> isVertexInGrid g x y z then Inl AssertionFailed
      else
        let idx = uint32_t (y + m_halfSize g) * (m_size g + 1);
            idx = (idx + uint32_t (x + m_halfSize g)) * (m_size g + 1);
            idx = idx + uint32_t (z + m_halfSize g)
        in Inr idx)"

text \<open>The overload taking a \<open>glm::ivec3\<close>.\<close>

definition pointToIndex_v :: "'d UniformGrid \<Rightarrow> int vec3 \<Rightarrow> fault + uint32" where
  "pointToIndex_v g p = pointToIndex g (vx p) (vy p) (vz p)"

definition indexToPoint :: "'d UniformGrid \<Rightarrow> uint32 \<Rightarrow> fault + int vec3" where
  "indexToPoint g idx =
     (if \<not> idx < (m_size g + 1) * (m_size g + 1) * (m_size g + 1) then Inl AssertionFailed
      else
        let z = int32_t (idx mod (m_size g + 1)) - m_halfSize g;
            idx = idx div (m_size g + 1);
            x = int32_t (idx mod (m_size g + 1)) - m_halfSize g;
            idx = idx div (m_size g + 1);
            y = int32_t idx - m_halfSize g
        in Inr \<lparr> vx = x, vy = y, vz = z \<rparr>)"

text \<open>The member function \<open>at\<close> (the name \<open>at\<close> is taken in HOL).\<close>

definition at_vertex :: "'d UniformGrid \<Rightarrow> int \<Rightarrow> int \<Rightarrow> int \<Rightarrow> fault + Material" where
  "at_vertex g x y z =
     (if \<not> isVertexInGrid g x y z then Inl AssertionFailed
      else case pointToIndex g x y z of
             Inl e \<Rightarrow> Inl e
           | Inr i \<Rightarrow> if unat i < length (m_mat g) then Inr (m_mat g ! unat i)
                      else Inl OutOfBounds)"

subsection \<open>Operations on edges\<close>

definition isEdgeInGrid0 :: "'d UniformGrid \<Rightarrow> int vec3 \<Rightarrow> bool" where
  "isEdgeInGrid0 g edgePos =
     (if vx edgePos < - m_halfSize g \<or> vx edgePos \<ge> m_halfSize g then False
      else if glm_abs (vy edgePos) > m_halfSize g then False
      else if glm_abs (vz edgePos) > m_halfSize g then False
      else True)"

definition isEdgeInGrid1 :: "'d UniformGrid \<Rightarrow> int vec3 \<Rightarrow> bool" where
  "isEdgeInGrid1 g edgePos =
     (if vy edgePos < - m_halfSize g \<or> vy edgePos \<ge> m_halfSize g then False
      else if glm_abs (vx edgePos) > m_halfSize g then False
      else if glm_abs (vz edgePos) > m_halfSize g then False
      else True)"

definition isEdgeInGrid2 :: "'d UniformGrid \<Rightarrow> int vec3 \<Rightarrow> bool" where
  "isEdgeInGrid2 g edgePos =
     (if vz edgePos < - m_halfSize g \<or> vz edgePos \<ge> m_halfSize g then False
      else if glm_abs (vx edgePos) > m_halfSize g then False
      else if glm_abs (vy edgePos) > m_halfSize g then False
      else True)"

text \<open>
  The adjacency queries. The sentinel \<open>kBadIndex\<close> is declared in grid.hpp, outside the
  modelled sources: it is a parameter. \<open>std::array<uint32_t, 4>\<close> is a list of four
  words; the subtractions wrap around.
\<close>

definition adjacentCellsForEdge0 :: "uint32 \<Rightarrow> 'd UniformGrid \<Rightarrow> int vec3 \<Rightarrow> fault + uint32 list" where
  "adjacentCellsForEdge0 kBadIndex g edgePos =
     (case pointToIndex_v g edgePos of
        Inl e \<Rightarrow> Inl e
      | Inr c2 \<Rightarrow>
          let dy = (m_size g + 1) * (m_size g + 1);
              dz = 1;
              cells = [c2 - dy - dz, c2 - dz, c2, c2 - dy];
              cells = (if vy edgePos = - m_halfSize g
                       then cells[0 := kBadIndex, 3 := kBadIndex] else cells);
              cells = (if vy edgePos = m_halfSize g
                       then cells[1 := kBadIndex, 2 := kBadIndex] else cells);
              cells = (if vz edgePos = - m_halfSize g
                       then cells[0 := kBadIndex, 1 := kBadIndex] else cells);
              cells = (if vz edgePos = m_halfSize g
                       then cells[2 := kBadIndex, 3 := kBadIndex] else cells)
          in Inr cells)"

definition adjacentCellsForEdge1 :: "uint32 \<Rightarrow> 'd UniformGrid \<Rightarrow> int vec3 \<Rightarrow> fault + uint32 list" where
  "adjacentCellsForEdge1 kBadIndex g edgePos =
     (case pointToIndex_v g edgePos of
        Inl e \<Rightarrow> Inl e
      | Inr c2 \<Rightarrow>
          let dx = m_size g + 1;
              dz = 1;
              cells = [c2 - dx - dz, c2 - dx, c2, c2 - dz];
              cells = (if vx edgePos = - m_halfSize g
                       then cells[0 := kBadIndex, 1 := kBadIndex] else cells);
              cells = (if vx edgePos = m_halfSize g
                       then cells[2 := kBadIndex, 3 := kBadIndex] else cells);
              cells = (if vz edgePos = - m_halfSize g
                       then cells[0 := kBadIndex, 3 := kBadIndex] else cells);
              cells = (if vz edgePos = m_halfSize g
                       then cells[1 := kBadIndex, 2 := kBadIndex] else cells)
          in Inr cells)"

definition adjacentCellsForEdge2 :: "uint32 \<Rightarrow> 'd UniformGrid \<Rightarrow> int vec3 \<Rightarrow> fault + uint32 list" where
  "adjacentCellsForEdge2 kBadIndex g edgePos =
     (case pointToIndex_v g edgePos of
        Inl e \<Rightarrow> Inl e
      | Inr c2 \<Rightarrow>
          let dx = m_size g + 1;
              dy = (m_size g + 1) * (m_size g + 1);
              cells = [c2 - dx - dy, c2 - dy, c2, c2 - dx];
              cells = (if vx edgePos = - m_halfSize g
                       then cells[0 := kBadIndex, 3 := kBadIndex] else cells);
              cells = (if vx edgePos = m_halfSize g
                       then cells[1 := kBadIndex, 2 := kBadIndex] else cells);
              cells = (if vy edgePos = - m_halfSize g
                       then cells[0 := kBadIndex, 1 := kBadIndex] else cells);
              cells = (if vy edgePos = m_halfSize g
                       then cells[2 := kBadIndex, 3 := kBadIndex] else cells)
          in Inr cells)"

subsection \<open>Operations on cells\<close>

definition isCellInGrid :: "'d UniformGrid \<Rightarrow> int vec3 \<Rightarrow> bool" where
  "isCellInGrid g cellPos =
     (if vx cellPos < - m_halfSize g \<or> vy cellPos < - m_halfSize g \<or> vz cellPos < - m_halfSize g
      then False
      else if vx cellPos \<ge> m_halfSize g \<or> vy cellPos \<ge> m_halfSize g \<or> vz cellPos \<ge> m_halfSize g
      then False
      else True)"

definition adjacentVerticesForCell :: "'d UniformGrid \<Rightarrow> uint32 \<Rightarrow> uint32 list" where
  "adjacentVerticesForCell g cellIdx =
     (let dx = m_size g + 1;
          dy = (m_size g + 1) * (m_size g + 1);
          dz = 1
      in [cellIdx, cellIdx + dz, cellIdx + dx, cellIdx + dx + dz,
          cellIdx + dy, cellIdx + dy + dz, cellIdx + dx + dy, cellIdx + dx + dy + dz])"

text \<open>A read of the material array; outside the array it is a fault.\<close>

definition read_mat :: "Material list \<Rightarrow> uint32 \<Rightarrow> fault + Material" where
  "read_mat ms i = (if unat i < length ms then Inr (ms ! unat i) else Inl OutOfBounds)"

fun read_all :: "Material list \<Rightarrow> uint32 list \<Rightarrow> fault + Material list" where
  "read_all ms [] = Inr []"
| "read_all ms (i # is) =
     (case read_mat ms i of
        Inl e \<Rightarrow> Inl e
      | Inr m \<Rightarrow> (case read_all ms is of Inl e \<Rightarrow> Inl e | Inr rest \<Rightarrow> Inr (m # rest)))"

definition materialsOfCell :: "'d UniformGrid \<Rightarrow> uint32 \<Rightarrow> fault + Material list" where
  "materialsOfCell g cellIdx =
     (let dx = m_size g + 1;
          dy = (m_size g + 1) * (m_size g + 1);
          dz = 1
      in read_all (m_mat g)
           [cellIdx, cellIdx + dz, cellIdx + dx, cellIdx + dx + dz,
            cellIdx + dy, cellIdx + dy + dz, cellIdx + dx + dy, cellIdx + dx + dy + dz])"

subsection \<open>Sampling and crossing detection: \<open>fill\<close>\<close>

text \<open>
  \<open>ScalarField\<close> and \<open>ZeroFinder\<close> are declared outside the modelled sources and are
  consumed by \<open>fill\<close> as callables: they are records of the functions \<open>fill\<close> calls
  (\<open>f (p)\<close>, \<open>f.grad (p)\<close>, \<open>f.material (p, value)\<close>; \<open>solver.findAlongX/Y/Z\<close>).
\<close>

record 'd ScalarField =
  field_value :: "'d vec3 \<Rightarrow> 'd"
  field_grad :: "'d vec3 \<Rightarrow> 'd vec3"
  field_material :: "'d vec3 \<Rightarrow> 'd \<Rightarrow> Material"

record 'd ZeroFinder =
  findAlongX :: "'d \<Rightarrow> 'd \<Rightarrow> 'd \<Rightarrow> 'd \<Rightarrow> 'd \<Rightarrow> 'd \<Rightarrow> 'd ScalarField \<Rightarrow> 'd"
  findAlongY :: "'d \<Rightarrow> 'd \<Rightarrow> 'd \<Rightarrow> 'd \<Rightarrow> 'd \<Rightarrow> 'd \<Rightarrow> 'd ScalarField \<Rightarrow> 'd"
  findAlongZ :: "'d \<Rightarrow> 'd \<Rightarrow> 'd \<Rightarrow> 'd \<Rightarrow> 'd \<Rightarrow> 'd \<Rightarrow> 'd ScalarField \<Rightarrow> 'd"

text \<open>
  Modelled from the spec: \<open>dataSize ()\<close> is declared in grid.hpp, outside the modelled
  sources; the data model gives the flat array \<open>(size + 1)\<^sup>3\<close> entries. It is computed in
  \<open>uint32_t\<close> as the constructor's allocation is.
\<close>

definition dataSize :: "'d UniformGrid \<Rightarrow> uint32" where
  "dataSize g = (m_size g + 1) * (m_size g + 1) * (m_size g + 1)"

text \<open>
  A \<open>for\<close> loop over the values of its loop variable, in order; the body may fault, which
  ends the run.
\<close>

fun for_each :: "'i list \<Rightarrow> ('i \<Rightarrow> 's \<Rightarrow> fault + 's) \<Rightarrow> 's \<Rightarrow> fault + 's" where
  "for_each [] body s = Inr s"
| "for_each (i # is) body s =
     (case body i s of Inl e \<Rightarrow> Inl e | Inr s' \<Rightarrow> for_each is body s')"

text \<open>
  The state of the first loop nest: \<open>idx\<close>, \<open>call_pos\<close>, the vector \<open>values\<close> and the
  material array. \<open>fs_material_calls\<close> records the arguments of every call of
  \<open>f.material\<close>, in call order (it is not a variable of the source).
\<close>

record 'd fill_state =
  fs_idx :: uint32
  fs_call_pos :: "'d vec3"
  fs_values :: "'d list"
  fs_mat :: "Material list"
  fs_material_calls :: "('d vec3 \<times> 'd) list"

text \<open>The body of the innermost loop (source lines 35 to 41).\<close>

definition fill_vertex ::
  "'d::{plus,zero,ord} ScalarField \<Rightarrow> 'd \<Rightarrow> 'd fill_state \<Rightarrow> fault + 'd fill_state" where
  "fill_vertex f gridStep s =
     (let idx = unat (fs_idx s); call_pos = fs_call_pos s in
      if idx \<ge> length (fs_values s) \<or> idx \<ge> length (fs_mat s) then Inl OutOfBounds
      else
        let v = field_value f call_pos;
            s = s\<lparr>fs_values := (fs_values s)[idx := v]\<rparr>;
            s = (if v > 0 then s\<lparr>fs_mat := (fs_mat s)[idx := Empty]\<rparr>
                 else s\<lparr>fs_mat := (fs_mat s)[idx := field_material f call_pos v],
                        fs_material_calls := fs_material_calls s @ [(call_pos, v)]\<rparr>)
        in Inr (s\<lparr>fs_idx := fs_idx s + 1,
                  fs_call_pos := call_pos\<lparr>vz := vz call_pos + gridStep\<rparr>\<rparr>))"

text \<open>The loops over \<open>z\<close>, over \<open>x\<close> and over \<open>y\<close> (source lines 30 to 46).\<close>

definition fill_vertices_z ::
  "'d::{plus,zero,ord} ScalarField \<Rightarrow> 'd UniformGrid \<Rightarrow> 'd fill_state \<Rightarrow> fault + 'd fill_state" where
  "fill_vertices_z f g s =
     for_each [- m_halfSize g .. m_halfSize g] (\<lambda>z s. fill_vertex f (m_gridStep g) s) s"

definition fill_vertices_x ::
  "'d::{plus,zero,ord} ScalarField \<Rightarrow> 'd UniformGrid \<Rightarrow> 'd vec3 \<Rightarrow> 'd fill_state
     \<Rightarrow> fault + 'd fill_state" where
  "fill_vertices_x f g lowest_point s =
     for_each [- m_halfSize g .. m_halfSize g]
       (\<lambda>x s. case fill_vertices_z f g (s\<lparr>fs_call_pos := (fs_call_pos s)\<lparr>vz := vz lowest_point\<rparr>\<rparr>) of
                 Inl e \<Rightarrow> Inl e
               | Inr s \<Rightarrow> Inr (s\<lparr>fs_call_pos :=
                                   (fs_call_pos s)\<lparr>vx := vx (fs_call_pos s) + m_gridStep g\<rparr>\<rparr>))
       s"

definition fill_vertices ::
  "'d::{plus,zero,ord} ScalarField \<Rightarrow> 'd UniformGrid \<Rightarrow> 'd vec3 \<Rightarrow> 'd fill_state
     \<Rightarrow> fault + 'd fill_state" where
  "fill_vertices f g lowest_point s =
     for_each [- m_halfSize g .. m_halfSize g]
       (\<lambda>y s. case fill_vertices_x f g lowest_point
                      (s\<lparr>fs_call_pos := (fs_call_pos s)\<lparr>vx := vx lowest_point\<rparr>\<rparr>) of
                 Inl e \<Rightarrow> Inl e
               | Inr s \<Rightarrow> Inr (s\<lparr>fs_call_pos :=
                                   (fs_call_pos s)\<lparr>vy := vy (fs_call_pos s) + m_gridStep g\<rparr>\<rparr>))
       s"

text \<open>
  The state of an edge loop nest: \<open>idx1\<close>, \<open>idx2\<close> and the edge collection being
  rebuilt. \<open>localToGlobal\<close> is declared in grid.hpp, outside the modelled sources, and is
  a parameter, as is the conversion \<open>to_double\<close> of an \<open>int32_t\<close> to \<open>double\<close> made by
  \<open>glm::dvec3 (x, y, z)\<close>.
\<close>

record 'd edge_state =
  es_idx1 :: uint32
  es_idx2 :: uint32
  es_edges :: "'d edge list"

text \<open>The body of the innermost loop along X (source lines 58 to 71).\<close>

definition fill_edgeX ::
  "('d vec3 \<Rightarrow> 'd vec3) \<Rightarrow> (int \<Rightarrow> 'd) \<Rightarrow> 'd::{plus,minus,inverse,zero,ord} ScalarField \<Rightarrow> 'd ZeroFinder \<Rightarrow> 'd
     \<Rightarrow> 'd list \<Rightarrow> Material list \<Rightarrow> int \<Rightarrow> int \<Rightarrow> int \<Rightarrow> 'd edge_state \<Rightarrow> fault + 'd edge_state" where
  "fill_edgeX localToGlobal to_double f solver gridStep values mat x y z s =
     (let idx1 = unat (es_idx1 s); idx2 = unat (es_idx2 s) in
      if idx1 \<ge> length values \<or> idx2 \<ge> length values then Inl OutOfBounds
      else
        let sign1 = (values ! idx1 \<le> 0);
            sign2 = (values ! idx2 \<le> 0)
        in case (if sign1 \<noteq> sign2 then
                   let p = localToGlobal \<lparr>vx = to_double x, vy = to_double y, vz = to_double z\<rparr>;
                       x0 = vx p;
                       x1 = vx p + gridStep;
                       p = p\<lparr>vx := findAlongX solver x0 (vy p) (vz p) x1
                                      (values ! idx1) (values ! idx2) f\<rparr>;
                       grad = field_grad f p;
                       offset = (vx p - x0) / gridStep
                   in if (if sign1 then idx1 else idx2) \<ge> length mat then Inl OutOfBounds
                      else Inr (s\<lparr>es_edges := es_edges s @
                                  [\<lparr>e_x = x, e_y = y, e_z = z, e_grad = grad, e_offset = offset,
                                    e_axis = 0, e_sign1 = sign1,
                                    e_mat = (if sign1 then mat ! idx1 else mat ! idx2)\<rparr>]\<rparr>)
                 else Inr s) of
             Inl e \<Rightarrow> Inl e
           | Inr s \<Rightarrow> Inr (s\<lparr>es_idx1 := es_idx1 s + 1, es_idx2 := es_idx2 s + 1\<rparr>))"

text \<open>The body of the innermost loop along Y (source lines 84 to 97).\<close>

definition fill_edgeY ::
  "('d vec3 \<Rightarrow> 'd vec3) \<Rightarrow> (int \<Rightarrow> 'd) \<Rightarrow> 'd::{plus,minus,inverse,zero,ord} ScalarField \<Rightarrow> 'd ZeroFinder \<Rightarrow> 'd
     \<Rightarrow> 'd list \<Rightarrow> Material list \<Rightarrow> int \<Rightarrow> int \<Rightarrow> int \<Rightarrow> 'd edge_state \<Rightarrow> fault + 'd edge_state" where
  "fill_edgeY localToGlobal to_double f solver gridStep values mat x y z s =
     (let idx1 = unat (es_idx1 s); idx2 = unat (es_idx2 s) in
      if idx1 \<ge> length values \<or> idx2 \<ge> length values then Inl OutOfBounds
      else
        let sign1 = (values ! idx1 \<le> 0);
            sign2 = (values ! idx2 \<le> 0)
        in case (if sign1 \<noteq> sign2 then
                   let p = localToGlobal \<lparr>vx = to_double x, vy = to_double y, vz = to_double z\<rparr>;
                       y0 = vy p;
                       y1 = vy p + gridStep;
                       p = p\<lparr>vy := findAlongY solver (vx p) y0 (vz p) y1
                                      (values ! idx1) (values ! idx2) f\<rparr>;
                       grad = field_grad f p;
                       offset = (vy p - y0) / gridStep
                   in if (if sign1 then idx1 else idx2) \<ge> length mat then Inl OutOfBounds
                      else Inr (s\<lparr>es_edges := es_edges s @
                                  [\<lparr>e_x = x, e_y = y, e_z = z, e_grad = grad, e_offset = offset,
                                    e_axis = 1, e_sign1 = sign1,
                                    e_mat = (if sign1 then mat ! idx1 else mat ! idx2)\<rparr>]\<rparr>)
                 else Inr s) of
             Inl e \<Rightarrow> Inl e
           | Inr s \<Rightarrow> Inr (s\<lparr>es_idx1 := es_idx1 s + 1, es_idx2 := es_idx2 s + 1\<rparr>))"

text \<open>The body of the innermost loop along Z (source lines 108 to 121).\<close>

definition fill_edgeZ ::
  "('d vec3 \<Rightarrow> 'd vec3) \<Rightarrow> (int \<Rightarrow> 'd) \<Rightarrow> 'd::{plus,minus,inverse,zero,ord} ScalarField \<Rightarrow> 'd ZeroFinder \<Rightarrow> 'd
     \<Rightarrow> 'd list \<Rightarrow> Material list \<Rightarrow> int \<Rightarrow> int \<Rightarrow> int \<Rightarrow> 'd edge_state \<Rightarrow> fault + 'd edge_state" where
  "fill_edgeZ localToGlobal to_double f solver gridStep values mat x y z s =
     (let idx1 = unat (es_idx1 s); idx2 = unat (es_idx2 s) in
      if idx1 \<ge> length values \<or> idx2 \<ge> length values then Inl OutOfBounds
      else
        let sign1 = (values ! idx1 \<le> 0);
            sign2 = (values ! idx2 \<le> 0)
        in case (if sign1 \<noteq> sign2 then
                   let p = localToGlobal \<lparr>vx = to_double x, vy = to_double y, vz = to_double z\<rparr>;
                       z0 = vz p;
                       z1 = vz p + gridStep;
                       p = p\<lparr>vz := findAlongZ solver (vx p) (vy p) z0 z1
                                      (values ! idx1) (values ! idx2) f\<rparr>;
                       grad = field_grad f p;
                       offset = (vz p - z0) / gridStep
                   in if (if sign1 then idx1 else idx2) \<ge> length mat then Inl OutOfBounds
                      else Inr (s\<lparr>es_edges := es_edges s @
                                  [\<lparr>e_x = x, e_y = y, e_z = z, e_grad = grad, e_offset = offset,
                                    e_axis = 2, e_sign1 = sign1,
                                    e_mat = (if sign1 then mat ! idx1 else mat ! idx2)\<rparr>]\<rparr>)
                 else Inr s) of
             Inl e \<Rightarrow> Inl e
           | Inr s \<Rightarrow> Inr (s\<lparr>es_idx1 := es_idx1 s + 1, es_idx2 := es_idx2 s + 1\<rparr>))"

text \<open>
  The three edge loop nests (source lines 55 to 76, 81 to 100 and 105 to 126). The loop
  along the scanned axis stops one short of \<open>m_halfSize\<close>; the indices skip the vertices
  that begin no edge.
\<close>

definition fill_edgesX ::
  "('d vec3 \<Rightarrow> 'd vec3) \<Rightarrow> (int \<Rightarrow> 'd) \<Rightarrow> 'd::{plus,minus,inverse,zero,ord} ScalarField \<Rightarrow> 'd ZeroFinder
     \<Rightarrow> 'd UniformGrid \<Rightarrow> 'd list \<Rightarrow> Material list \<Rightarrow> 'd edge_state \<Rightarrow> fault + 'd edge_state" where
  "fill_edgesX localToGlobal to_double f solver g values mat s =
     for_each [- m_halfSize g .. m_halfSize g]
       (\<lambda>y s. case for_each [- m_halfSize g .. m_halfSize g - 1]
                      (\<lambda>x s. for_each [- m_halfSize g .. m_halfSize g]
                                (\<lambda>z s. fill_edgeX localToGlobal to_double f solver (m_gridStep g)
                                          values mat x y z s) s) s of
                 Inl e \<Rightarrow> Inl e
               | Inr s \<Rightarrow> Inr (s\<lparr>es_idx1 := es_idx1 s + (m_size g + 1),
                                  es_idx2 := es_idx2 s + (m_size g + 1)\<rparr>))
       s"

definition fill_edgesY ::
  "('d vec3 \<Rightarrow> 'd vec3) \<Rightarrow> (int \<Rightarrow> 'd) \<Rightarrow> 'd::{plus,minus,inverse,zero,ord} ScalarField \<Rightarrow> 'd ZeroFinder
     \<Rightarrow> 'd UniformGrid \<Rightarrow> 'd list \<Rightarrow> Material list \<Rightarrow> 'd edge_state \<Rightarrow> fault + 'd edge_state" where
  "fill_edgesY localToGlobal to_double f solver g values mat s =
     for_each [- m_halfSize g .. m_halfSize g - 1]
       (\<lambda>y s. for_each [- m_halfSize g .. m_halfSize g]
                 (\<lambda>x s. for_each [- m_halfSize g .. m_halfSize g]
                           (\<lambda>z s. fill_edgeY localToGlobal to_double f solver (m_gridStep g)
                                     values mat x y z s) s) s)
       s"

definition fill_edgesZ ::
  "('d vec3 \<Rightarrow> 'd vec3) \<Rightarrow> (int \<Rightarrow> 'd) \<Rightarrow> 'd::{plus,minus,inverse,zero,ord} ScalarField \<Rightarrow> 'd ZeroFinder
     \<Rightarrow> 'd UniformGrid \<Rightarrow> 'd list \<Rightarrow> Material list \<Rightarrow> 'd edge_state \<Rightarrow> fault + 'd edge_state" where
  "fill_edgesZ localToGlobal to_double f solver g values mat s =
     for_each [- m_halfSize g .. m_halfSize g]
       (\<lambda>y s. for_each [- m_halfSize g .. m_halfSize g]
                 (\<lambda>x s. case for_each [- m_halfSize g .. m_halfSize g - 1]
                                (\<lambda>z s. fill_edgeZ localToGlobal to_double f solver (m_gridStep g)
                                          values mat x y z s) s of
                           Inl e \<Rightarrow> Inl e
                         | Inr s \<Rightarrow> Inr (s\<lparr>es_idx1 := es_idx1 s + 1, es_idx2 := es_idx2 s + 1\<rparr>))
                 s)
       s"

text \<open>
  \<open>fill\<close>: the vector \<open>values\<close> starts as \<open>dataSize ()\<close> zeros, the first loop nest
  samples the field, and the three edge collections are cleared and rebuilt from the
  sampled values and the new materials. The result is the updated grid and the record of
  the calls of \<open>f.material\<close>.
\<close>

definition fill ::
  "('d vec3 \<Rightarrow> 'd vec3) \<Rightarrow> (int \<Rightarrow> 'd) \<Rightarrow> 'd UniformGrid \<Rightarrow> 'd::{plus,minus,inverse,zero,ord} ScalarField
     \<Rightarrow> 'd ZeroFinder \<Rightarrow> fault + ('d UniformGrid \<times> ('d vec3 \<times> 'd) list)" where
  "fill localToGlobal to_double g f solver =
     (let lowest_point = localToGlobal \<lparr>vx = to_double (- m_halfSize g),
                                        vy = to_double (- m_halfSize g),
                                        vz = to_double (- m_halfSize g)\<rparr>
      in case fill_vertices f g lowest_point
                \<lparr>fs_idx = 0, fs_call_pos = lowest_point,
                 fs_values = replicate (unat (dataSize g)) 0, fs_mat = m_mat g,
                 fs_material_calls = []\<rparr> of
           Inl e \<Rightarrow> Inl e
         | Inr vs \<Rightarrow>
             (case fill_edgesX localToGlobal to_double f solver g (fs_values vs) (fs_mat vs)
                     \<lparr>es_idx1 = 0, es_idx2 = m_size g + 1, es_edges = []\<rparr> of
                Inl e \<Rightarrow> Inl e
              | Inr ex \<Rightarrow>
                  (case fill_edgesY localToGlobal to_double f solver g (fs_values vs) (fs_mat vs)
                          \<lparr>es_idx1 = 0, es_idx2 = (m_size g + 1) * (m_size g + 1), es_edges = []\<rparr> of
                     Inl e \<Rightarrow> Inl e
                   | Inr ey \<Rightarrow>
                       (case fill_edgesZ localToGlobal to_double f solver g (fs_values vs) (fs_mat vs)
                               \<lparr>es_idx1 = 0, es_idx2 = 1, es_edges = []\<rparr> of
                          Inl e \<Rightarrow> Inl e
                        | Inr ez \<Rightarrow>
                            Inr (g\<lparr>m_mat := fs_mat vs, m_edgeX := es_edges ex,
                                   m_edgeY := es_edges ey, m_edgeZ := es_edges ez\<rparr>,
                                 fs_material_calls vs)))))"

subsection \<open>Notions the properties are stated with\<close>

text \<open>The number of lattice vertices, \<open>(size + 1)\<^sup>3\<close>, as a natural number.\<close>

definition vertexCount :: "'d UniformGrid \<Rightarrow> nat" where
  "vertexCount g = (unat (m_size g) + 1) ^ 3"

text \<open>The index formula of the data model, over the integers.\<close>

definition indexFormula :: "'d UniformGrid \<Rightarrow> int \<Rightarrow> int \<Rightarrow> int \<Rightarrow> int" where
  "indexFormula g x y z =
     ((y + m_halfSize g) * (uint (m_size g) + 1) + (x + m_halfSize g)) * (uint (m_size g) + 1)
       + (z + m_halfSize g)"

text \<open>The lattice coordinates with every component in \<open>[-halfSize, halfSize]\<close>.\<close>

definition latticePoints :: "'d UniformGrid \<Rightarrow> int vec3 set" where
  "latticePoints g =
     {p. - m_halfSize g \<le> vx p \<and> vx p \<le> m_halfSize g \<and>
         - m_halfSize g \<le> vy p \<and> vy p \<le> m_halfSize g \<and>
         - m_halfSize g \<le> vz p \<and> vz p \<le> m_halfSize g}"

text \<open>The same range as a predicate on the three coordinates.\<close>

definition inLattice :: "'d UniformGrid \<Rightarrow> int \<Rightarrow> int \<Rightarrow> int \<Rightarrow> bool" where
  "inLattice g x y z \<longleftrightarrow>
     - m_halfSize g \<le> x \<and> x \<le> m_halfSize g \<and> - m_halfSize g \<le> y \<and> y \<le> m_halfSize g \<and>
     - m_halfSize g \<le> z \<and> z \<le> m_halfSize g"

text \<open>
  The lattice edges along axis 0, 1 and 2, by their lower endpoint \<open>p\<close>: both endpoints
  are lattice coordinates.
\<close>

definition latticeEdge0 :: "'d UniformGrid \<Rightarrow> int vec3 \<Rightarrow> bool" where
  "latticeEdge0 g p \<longleftrightarrow>
     - m_halfSize g \<le> vx p \<and> vx p < m_halfSize g \<and> - m_halfSize g \<le> vy p \<and> vy p \<le> m_halfSize g \<and>
     - m_halfSize g \<le> vz p \<and> vz p \<le> m_halfSize g"

definition latticeEdge1 :: "'d UniformGrid \<Rightarrow> int vec3 \<Rightarrow> bool" where
  "latticeEdge1 g p \<longleftrightarrow>
     - m_halfSize g \<le> vx p \<and> vx p \<le> m_halfSize g \<and> - m_halfSize g \<le> vy p \<and> vy p < m_halfSize g \<and>
     - m_halfSize g \<le> vz p \<and> vz p \<le> m_halfSize g"

definition latticeEdge2 :: "'d UniformGrid \<Rightarrow> int vec3 \<Rightarrow> bool" where
  "latticeEdge2 g p \<longleftrightarrow>
     - m_halfSize g \<le> vx p \<and> vx p \<le> m_halfSize g \<and> - m_halfSize g \<le> vy p \<and> vy p \<le> m_halfSize g \<and>
     - m_halfSize g \<le> vz p \<and> vz p < m_halfSize g"

text \<open>
  The coordinates on which \<open>glm::abs\<close> is the absolute value: every \<open>int32_t\<close> but the
  most negative one.
\<close>

definition negatable :: "int \<Rightarrow> bool" where
  "negatable v \<longleftrightarrow> - 2147483648 < v \<and> v \<le> 2147483647"

text \<open>The index of a lattice coordinate as a natural number (0 where the assertion fails).\<close>

definition vertexIndex :: "'d UniformGrid \<Rightarrow> int vec3 \<Rightarrow> nat" where
  "vertexIndex g p = (case pointToIndex_v g p of Inr i \<Rightarrow> unat i | Inl e \<Rightarrow> 0)"

text \<open>
  The eight corner vertices of the cell with minimal corner \<open>c\<close>, in the order
  \<open>(dx, dy, dz) = (0,0,0), (0,0,1), (1,0,0), (1,0,1), (0,1,0), (0,1,1), (1,1,0), (1,1,1)\<close>.
\<close>

definition cellCorners :: "int vec3 \<Rightarrow> int vec3 list" where
  "cellCorners c =
     [\<lparr>vx = vx c, vy = vy c, vz = vz c\<rparr>, \<lparr>vx = vx c, vy = vy c, vz = vz c + 1\<rparr>,
      \<lparr>vx = vx c + 1, vy = vy c, vz = vz c\<rparr>, \<lparr>vx = vx c + 1, vy = vy c, vz = vz c + 1\<rparr>,
      \<lparr>vx = vx c, vy = vy c + 1, vz = vz c\<rparr>, \<lparr>vx = vx c, vy = vy c + 1, vz = vz c + 1\<rparr>,
      \<lparr>vx = vx c + 1, vy = vy c + 1, vz = vz c\<rparr>, \<lparr>vx = vx c + 1, vy = vy c + 1, vz = vz c + 1\<rparr>]"

text \<open>The index arithmetic of \<open>pointToIndex\<close> without its assertion.\<close>

definition rawIndex :: "'d UniformGrid \<Rightarrow> int vec3 \<Rightarrow> uint32" where
  "rawIndex g c =
     (uint32_t (vy c + m_halfSize g) * (m_size g + 1) + uint32_t (vx c + m_halfSize g))
       * (m_size g + 1) + uint32_t (vz c + m_halfSize g)"

text \<open>
  The four cells around an edge along axis 0, 1 or 2 with lower endpoint \<open>p\<close>, by their
  minimal corners, in the order of the returned array; and what it means for a cell (a
  unit cube with minimal corner \<open>c\<close>) to have that edge on its boundary.
\<close>

definition edgeCells0 :: "int vec3 \<Rightarrow> int vec3 list" where
  "edgeCells0 p =
     [\<lparr>vx = vx p, vy = vy p - 1, vz = vz p - 1\<rparr>, \<lparr>vx = vx p, vy = vy p, vz = vz p - 1\<rparr>,
      \<lparr>vx = vx p, vy = vy p, vz = vz p\<rparr>, \<lparr>vx = vx p, vy = vy p - 1, vz = vz p\<rparr>]"

definition edgeCells1 :: "int vec3 \<Rightarrow> int vec3 list" where
  "edgeCells1 p =
     [\<lparr>vx = vx p - 1, vy = vy p, vz = vz p - 1\<rparr>, \<lparr>vx = vx p - 1, vy = vy p, vz = vz p\<rparr>,
      \<lparr>vx = vx p, vy = vy p, vz = vz p\<rparr>, \<lparr>vx = vx p, vy = vy p, vz = vz p - 1\<rparr>]"

definition edgeCells2 :: "int vec3 \<Rightarrow> int vec3 list" where
  "edgeCells2 p =
     [\<lparr>vx = vx p - 1, vy = vy p - 1, vz = vz p\<rparr>, \<lparr>vx = vx p, vy = vy p - 1, vz = vz p\<rparr>,
      \<lparr>vx = vx p, vy = vy p, vz = vz p\<rparr>, \<lparr>vx = vx p - 1, vy = vy p, vz = vz p\<rparr>]"

definition cellHasEdge0 :: "int vec3 \<Rightarrow> int vec3 \<Rightarrow> bool" where
  "cellHasEdge0 c p \<longleftrightarrow>
     vx p = vx c \<and> (vy p = vy c \<or> vy p = vy c + 1) \<and> (vz p = vz c \<or> vz p = vz c + 1)"

definition cellHasEdge1 :: "int vec3 \<Rightarrow> int vec3 \<Rightarrow> bool" where
  "cellHasEdge1 c p \<longleftrightarrow>
     vy p = vy c \<and> (vx p = vx c \<or> vx p = vx c + 1) \<and> (vz p = vz c \<or> vz p = vz c + 1)"

definition cellHasEdge2 :: "int vec3 \<Rightarrow> int vec3 \<Rightarrow> bool" where
  "cellHasEdge2 c p \<longleftrightarrow>
     vz p = vz c \<and> (vx p = vx c \<or> vx p = vx c + 1) \<and> (vy p = vy c \<or> vy p = vy c + 1)"

text \<open>
  What one entry of the adjacency array holds, and the property of an entry \<open>w\<close> for
  the cell \<open>c\<close>: it is the sentinel exactly when the cell is outside the grid, and
  otherwise the index of the minimal corner of that in-grid cell, which has the edge on
  its boundary.
\<close>

definition sentinelOrIndex :: "uint32 \<Rightarrow> 'd UniformGrid \<Rightarrow> int vec3 \<Rightarrow> uint32" where
  "sentinelOrIndex kBadIndex g c = (if isCellInGrid g c then rawIndex g c else kBadIndex)"

definition adjacentEntry ::
  "uint32 \<Rightarrow> 'd UniformGrid \<Rightarrow> bool \<Rightarrow> int vec3 \<Rightarrow> uint32 \<Rightarrow> bool" where
  "adjacentEntry kBadIndex g onBoundary c w \<longleftrightarrow>
     (w = kBadIndex) = (\<not> isCellInGrid g c) \<and>
     (w = kBadIndex \<or> (isCellInGrid g c \<and> pointToIndex_v g c = Inr w \<and> onBoundary))"

text \<open>
  The point at which \<open>fill\<close> samples the lattice vertex \<open>p\<close>: each coordinate of
  \<open>lowest_point\<close> advanced by \<open>gridStep\<close> once per lattice step, by repeated addition
  as the loops do; the value sampled there, and the material the sampling assigns.
\<close>

definition advance :: "'d::plus \<Rightarrow> int \<Rightarrow> 'd \<Rightarrow> 'd" where
  "advance gridStep k c = ((\<lambda>c. c + gridStep) ^^ nat k) c"

definition samplePoint :: "'d::plus UniformGrid \<Rightarrow> 'd vec3 \<Rightarrow> int vec3 \<Rightarrow> 'd vec3" where
  "samplePoint g lowest p =
     \<lparr>vx = advance (m_gridStep g) (vx p + m_halfSize g) (vx lowest),
      vy = advance (m_gridStep g) (vy p + m_halfSize g) (vy lowest),
      vz = advance (m_gridStep g) (vz p + m_halfSize g) (vz lowest)\<rparr>"

definition sampleValue :: "'d::plus ScalarField \<Rightarrow> 'd UniformGrid \<Rightarrow> 'd vec3 \<Rightarrow> int vec3 \<Rightarrow> 'd" where
  "sampleValue f g lowest p = field_value f (samplePoint g lowest p)"

definition sampleMaterial ::
  "'d::{plus,zero,ord} ScalarField \<Rightarrow> 'd UniformGrid \<Rightarrow> 'd vec3 \<Rightarrow> int vec3 \<Rightarrow> Material" where
  "sampleMaterial f g lowest p =
     (if sampleValue f g lowest p > 0 then Empty
      else field_material f (samplePoint g lowest p) (sampleValue f g lowest p))"

text \<open>
  The invariant of the first loop nest: every lattice vertex whose index is below \<open>idx\<close>
  holds its sampled value and material, and \<open>f.material\<close> was only called with a sampled
  value that is not positive.
\<close>

definition vertices_done ::
  "'d::{plus,zero,ord} ScalarField \<Rightarrow> 'd UniformGrid \<Rightarrow> 'd vec3 \<Rightarrow> 'd fill_state \<Rightarrow> bool" where
  "vertices_done f g lowest s \<longleftrightarrow>
     length (fs_values s) = vertexCount g \<and> length (fs_mat s) = vertexCount g \<and>
     (\<forall>p \<in> latticePoints g. vertexIndex g p < unat (fs_idx s) \<longrightarrow>
        fs_values s ! vertexIndex g p = sampleValue f g lowest p \<and>
        fs_mat s ! vertexIndex g p = sampleMaterial f g lowest p) \<and>
     (\<forall>c \<in> set (fs_material_calls s). \<not> snd c > 0 \<and> snd c = field_value f (fst c))"

text \<open>
  The edge along \<open>axis\<close> (0, 1 or 2) with lower endpoint \<open>p\<close>: its upper endpoint, the
  inside predicate \<open>value \<le> 0\<close> on the sampled values, and whether the two endpoints
  disagree.
\<close>

definition upperEnd :: "nat \<Rightarrow> int vec3 \<Rightarrow> int vec3" where
  "upperEnd axis p =
     (if axis = 0 then \<lparr>vx = vx p + 1, vy = vy p, vz = vz p\<rparr>
      else if axis = 1 then \<lparr>vx = vx p, vy = vy p + 1, vz = vz p\<rparr>
      else \<lparr>vx = vx p, vy = vy p, vz = vz p + 1\<rparr>)"

definition isInside :: "'d::{plus,zero,ord} ScalarField \<Rightarrow> 'd UniformGrid \<Rightarrow> 'd vec3 \<Rightarrow> int vec3 \<Rightarrow> bool" where
  "isInside f g lowest p \<longleftrightarrow> sampleValue f g lowest p \<le> 0"

definition isCrossing ::
  "nat \<Rightarrow> 'd::{plus,zero,ord} ScalarField \<Rightarrow> 'd UniformGrid \<Rightarrow> 'd vec3 \<Rightarrow> int vec3 \<Rightarrow> bool" where
  "isCrossing axis f g lowest p \<longleftrightarrow> isInside f g lowest p \<noteq> isInside f g lowest (upperEnd axis p)"

text \<open>
  What \<open>fill\<close> computes for a crossing edge: the point \<open>localToGlobal (dvec3 (x, y, z))\<close>,
  whose coordinate along the axis is the lower bound given to the root finder (the upper
  bound is that coordinate plus \<open>gridStep\<close>), the coordinate the finder returns, and the
  entry recorded.
\<close>

definition globalPoint :: "('d vec3 \<Rightarrow> 'd vec3) \<Rightarrow> (int \<Rightarrow> 'd) \<Rightarrow> int vec3 \<Rightarrow> 'd vec3" where
  "globalPoint localToGlobal to_double p =
     localToGlobal \<lparr>vx = to_double (vx p), vy = to_double (vy p), vz = to_double (vz p)\<rparr>"

definition coord :: "nat \<Rightarrow> 'a vec3 \<Rightarrow> 'a" where
  "coord axis v = (if axis = 0 then vx v else if axis = 1 then vy v else vz v)"

definition setCoord :: "nat \<Rightarrow> 'a vec3 \<Rightarrow> 'a \<Rightarrow> 'a vec3" where
  "setCoord axis v c =
     (if axis = 0 then v\<lparr>vx := c\<rparr> else if axis = 1 then v\<lparr>vy := c\<rparr> else v\<lparr>vz := c\<rparr>)"

definition findAlong ::
  "nat \<Rightarrow> 'd ZeroFinder \<Rightarrow> 'd vec3 \<Rightarrow> 'd \<Rightarrow> 'd \<Rightarrow> 'd \<Rightarrow> 'd ScalarField \<Rightarrow> 'd" where
  "findAlong axis solver gp upper v1 v2 f =
     (if axis = 0 then findAlongX solver (vx gp) (vy gp) (vz gp) upper v1 v2 f
      else if axis = 1 then findAlongY solver (vx gp) (vy gp) (vz gp) upper v1 v2 f
      else findAlongZ solver (vx gp) (vy gp) (vz gp) upper v1 v2 f)"

definition edgeRoot ::
  "nat \<Rightarrow> ('d vec3 \<Rightarrow> 'd vec3) \<Rightarrow> (int \<Rightarrow> 'd) \<Rightarrow> 'd::{plus,zero,ord} ScalarField \<Rightarrow> 'd ZeroFinder
     \<Rightarrow> 'd UniformGrid \<Rightarrow> 'd vec3 \<Rightarrow> int vec3 \<Rightarrow> 'd" where
  "edgeRoot axis localToGlobal to_double f solver g lowest p =
     findAlong axis solver (globalPoint localToGlobal to_double p)
       (coord axis (globalPoint localToGlobal to_double p) + m_gridStep g)
       (sampleValue f g lowest p) (sampleValue f g lowest (upperEnd axis p)) f"

definition edgeEntry ::
  "nat \<Rightarrow> ('d vec3 \<Rightarrow> 'd vec3) \<Rightarrow> (int \<Rightarrow> 'd) \<Rightarrow> 'd::{plus,minus,inverse,zero,ord} ScalarField
     \<Rightarrow> 'd ZeroFinder \<Rightarrow> 'd UniformGrid \<Rightarrow> 'd vec3 \<Rightarrow> int vec3 \<Rightarrow> 'd edge" where
  "edgeEntry axis localToGlobal to_double f solver g lowest p =
     \<lparr>e_x = vx p, e_y = vy p, e_z = vz p,
      e_grad = field_grad f (setCoord axis (globalPoint localToGlobal to_double p)
                               (edgeRoot axis localToGlobal to_double f solver g lowest p)),
      e_offset = (edgeRoot axis localToGlobal to_double f solver g lowest p
                    - coord axis (globalPoint localToGlobal to_double p)) / m_gridStep g,
      e_axis = axis,
      e_sign1 = isInside f g lowest p,
      e_mat = (if isInside f g lowest p then sampleMaterial f g lowest p
               else sampleMaterial f g lowest (upperEnd axis p))\<rparr>"

definition edgesAt ::
  "nat \<Rightarrow> ('d vec3 \<Rightarrow> 'd vec3) \<Rightarrow> (int \<Rightarrow> 'd) \<Rightarrow> 'd::{plus,minus,inverse,zero,ord} ScalarField
     \<Rightarrow> 'd ZeroFinder \<Rightarrow> 'd UniformGrid \<Rightarrow> 'd vec3 \<Rightarrow> int vec3 \<Rightarrow> 'd edge list" where
  "edgesAt axis localToGlobal to_double f solver g lowest p =
     (if isCrossing axis f g lowest p
      then [edgeEntry axis localToGlobal to_double f solver g lowest p] else [])"

text \<open>The vector \<open>values\<close> and the material array after the first loop nest.\<close>

definition sampled ::
  "'d::{plus,zero,ord} ScalarField \<Rightarrow> 'd UniformGrid \<Rightarrow> 'd vec3 \<Rightarrow> 'd list \<Rightarrow> Material list \<Rightarrow> bool" where
  "sampled f g lowest values mat \<longleftrightarrow>
     length values = vertexCount g \<and> length mat = vertexCount g \<and>
     (\<forall>p \<in> latticePoints g.
        values ! vertexIndex g p = sampleValue f g lowest p \<and>
        mat ! vertexIndex g p = sampleMaterial f g lowest p)"

text \<open>
  The order in which an edge loop nest visits the edges along \<open>axis\<close>, with the list
  \<open>E p\<close> contributed at the edge \<open>p\<close>.
\<close>

definition scanEdges :: "nat \<Rightarrow> 'd UniformGrid \<Rightarrow> (int vec3 \<Rightarrow> 'e list) \<Rightarrow> 'e list" where
  "scanEdges axis g E =
     concat (map (\<lambda>y.
       concat (map (\<lambda>x.
         concat (map (\<lambda>z. E \<lparr>vx = x, vy = y, vz = z\<rparr>)
           [- m_halfSize g .. (if axis = 2 then m_halfSize g - 1 else m_halfSize g)]))
         [- m_halfSize g .. (if axis = 0 then m_halfSize g - 1 else m_halfSize g)]))
       [- m_halfSize g .. (if axis = 1 then m_halfSize g - 1 else m_halfSize g)])"

text \<open>\<open>lowest_point\<close> of \<open>fill\<close>, and the three axes taken together.\<close>

definition lowestPoint :: "('d vec3 \<Rightarrow> 'd vec3) \<Rightarrow> (int \<Rightarrow> 'd) \<Rightarrow> 'd UniformGrid \<Rightarrow> 'd vec3" where
  "lowestPoint localToGlobal to_double g =
     localToGlobal \<lparr>vx = to_double (- m_halfSize g), vy = to_double (- m_halfSize g),
                    vz = to_double (- m_halfSize g)\<rparr>"

definition latticeEdge :: "nat \<Rightarrow> 'd UniformGrid \<Rightarrow> int vec3 \<Rightarrow> bool" where
  "latticeEdge axis g p =
     (if axis = 0 then latticeEdge0 g p else if axis = 1 then latticeEdge1 g p
      else latticeEdge2 g p)"

definition edgesOfAxis :: "nat \<Rightarrow> 'd UniformGrid \<Rightarrow> 'd edge list" where
  "edgesOfAxis axis g =
     (if axis = 0 then m_edgeX g else if axis = 1 then m_edgeY g else m_edgeZ g)"

text \<open>The lower endpoint of the edge an entry was recorded for.\<close>

definition edgePos :: "'d edge \<Rightarrow> int vec3" where
  "edgePos e = \<lparr>vx = e_x e, vy = e_y e, vz = e_z e\<rparr>"

text \<open>The endpoint of an edge that is inside: the lower one when its value is at most 0.\<close>

definition insideEnd ::
  "nat \<Rightarrow> 'd::{plus,zero,ord} ScalarField \<Rightarrow> 'd UniformGrid \<Rightarrow> 'd vec3 \<Rightarrow> int vec3 \<Rightarrow> int vec3" where
  "insideEnd axis f g lowest p = (if isInside f g lowest p then p else upperEnd axis p)"


subsection \<open>A concrete grid\<close>

text \<open>The grid of size 2 (27 lattice vertices) with unit step at the origin.\<close>

definition grid2 :: "real UniformGrid" where
  "grid2 = \<lparr> m_size = 2, m_halfSize = 1, m_globalPos = \<lparr>vx = 0, vy = 0, vz = 0\<rparr>,
              m_gridStep = 1, m_mat = replicate 27 Stone,
              m_edgeX = [], m_edgeY = [], m_edgeZ = [] \<rparr>"

text \<open>
  A field whose zero set is the plane \<open>x = 1\<close>, and a root finder that returns an
  endpoint where the field value there is exactly 0 and the midpoint otherwise.
\<close>

definition planeField :: "real ScalarField" where
  "planeField = \<lparr> field_value = (\<lambda>p. 1 - vx p),
                   field_grad = (\<lambda>p. \<lparr>vx = - 1, vy = 0, vz = 0\<rparr>),
                   field_material = (\<lambda>p v. Soil) \<rparr>"

definition endpointFinder :: "real ZeroFinder" where
  "endpointFinder =
     \<lparr> findAlongX = (\<lambda>x0 y z x1 v0 v1 f. if v1 = 0 then x1 else if v0 = 0 then x0 else (x0 + x1) / 2),
       findAlongY = (\<lambda>x y0 z y1 v0 v1 f. if v1 = 0 then y1 else if v0 = 0 then y0 else (y0 + y1) / 2),
       findAlongZ = (\<lambda>x y z0 z1 v0 v1 f. if v1 = 0 then z1 else if v0 = 0 then z0 else (z0 + z1) / 2) \<rparr>"

section \<open>The constructor's checks\<close>

lemma and_pred_nat_zero_iff:
  "0 < n \<Longrightarrow> (n AND (n - 1) = 0) = is_power_of_two n" for n :: nat
proof (induction n rule: less_induct)
  case (less n)
  show ?case
  proof (cases "even n")
    case True
    then obtain m where m: "n = 2 * m" by (elim evenE)
    with less.prems have mpos: "0 < m" by simp
    have half_pred: "(2 * m - Suc 0) div 2 = m - Suc 0" using mpos by arith
    have "n AND (n - 1) = 2 * (m AND (m - 1))"
      unfolding m by (subst and_nat_rec) (simp add: half_pred)
    then have "(n AND (n - 1) = 0) = (m AND (m - 1) = 0)" by simp
    also have "\<dots> = is_power_of_two m"
      using less.IH [of m] m mpos by simp
    also have "\<dots> = is_power_of_two n"
    proof
      assume "is_power_of_two m"
      then obtain k where "m = 2 ^ k" by (auto simp: is_power_of_two_def)
      then have "n = 2 ^ Suc k" using m by simp
      then show "is_power_of_two n" unfolding is_power_of_two_def by blast
    next
      assume "is_power_of_two n"
      then obtain k where k: "n = 2 ^ k" by (auto simp: is_power_of_two_def)
      with m mpos have "k \<noteq> 0" by (cases k) auto
      then obtain j where "k = Suc j" by (cases k) auto
      with k m have "m = 2 ^ j" by simp
      then show "is_power_of_two m" unfolding is_power_of_two_def by blast
    qed
    finally show ?thesis .
  next
    case False
    then obtain m where m: "n = 2 * m + 1" by (elim oddE)
    have "n AND (n - 1) = 2 * (m AND m)"
      by (subst and_nat_rec) (simp add: m)
    then have l: "(n AND (n - 1) = 0) = (m = 0)" by simp
    have r: "is_power_of_two n = (m = 0)"
    proof
      assume "is_power_of_two n"
      then obtain k where k: "n = 2 ^ k" by (auto simp: is_power_of_two_def)
      have "k = 0"
      proof (rule ccontr)
        assume "k \<noteq> 0"
        then have "even ((2::nat) ^ k)" by simp
        with k False show False by simp
      qed
      with k m show "m = 0" by simp
    next
      assume "m = 0"
      with m have "n = 2 ^ 0" by simp
      then show "is_power_of_two n" unfolding is_power_of_two_def by blast
    qed
    from l r show ?thesis by simp
  qed
qed

lemma word_and_pred_zero_iff:
  "w \<noteq> 0 \<Longrightarrow> (w AND (w - 1) = 0) = is_power_of_two (unat w)" for w :: uint32
proof -
  assume nz: "w \<noteq> 0"
  then have pos: "0 < unat w" by (simp add: unat_gt_0)
  have "(w AND (w - 1) = 0) = (unat (w AND (w - 1)) = 0)"
    by (simp add: unat_eq_zero)
  also have "unat (w AND (w - 1)) = unat w AND (unat w - 1)"
    using nz by (simp add: unsigned_and_eq unat_minus_one)
  finally show ?thesis using and_pred_nat_zero_iff [OF pos] by simp
qed

section \<open>Word arithmetic inside the grid\<close>

lemma int32_t_small:
  "unat w \<le> 1025 \<Longrightarrow> int32_t w = int (unat w)" for w :: uint32
proof -
  assume "unat w \<le> 1025"
  then have "uint w \<le> 1025" by (metis of_nat_le_iff of_nat_numeral uint_nat)
  then have "uint w < 2 ^ 31" by simp
  moreover have "- (2 ^ 31) \<le> uint w" by (rule order_trans [of _ 0]) simp_all
  ultimately have "signed_take_bit 31 (uint w) = uint w"
    by (rule signed_take_bit_int_eq_self [rotated])
  then show ?thesis by (simp add: int32_t_def sint_uint)
qed

lemma grid_inv_size:
  assumes "grid_inv g"
  shows "2 \<le> unat (m_size g)" and "unat (m_size g) \<le> 1024" and "even (unat (m_size g))"
    and "m_halfSize g = int (unat (m_size g) div 2)"
proof -
  from assms have a: "\<not> m_size g < 2" and b: "m_size g AND (m_size g - 1) = 0"
    and c: "\<not> m_size g > 1024" and d: "m_halfSize g = int32_t (m_size g) sdiv 2"
    by (simp_all add: grid_inv_def)
  from a show two: "2 \<le> unat (m_size g)" by (simp add: word_less_nat_alt)
  from c show le: "unat (m_size g) \<le> 1024" by (simp add: word_less_nat_alt)
  from two have nz: "m_size g \<noteq> 0" by auto
  from b nz have "is_power_of_two (unat (m_size g))"
    by (simp add: word_and_pred_zero_iff)
  then obtain k where k: "unat (m_size g) = 2 ^ k" by (auto simp: is_power_of_two_def)
  with two have "k \<noteq> 0" by (cases k) auto
  with k show "even (unat (m_size g))" by simp
  have "int32_t (m_size g) = int (unat (m_size g))"
    using le by (intro int32_t_small) simp
  moreover have "int (unat (m_size g)) sdiv 2 = int (unat (m_size g) div 2)"
    by (simp add: signed_divide_int_def zdiv_int sgn_if)
  ultimately show "m_halfSize g = int (unat (m_size g) div 2)"
    using d by simp
qed

lemma index_lt_cube:
  fixes a b c S :: nat
  assumes "a \<le> S" "b \<le> S" "c \<le> S"
  shows "(a * (S + 1) + b) * (S + 1) + c < (S + 1) ^ 3"
proof -
  have "a * (S + 1) + b \<le> S * (S + 1) + S"
    using assms by (intro add_mono mult_le_mono1)
  then have "(a * (S + 1) + b) * (S + 1) \<le> (S * (S + 1) + S) * (S + 1)"
    by (rule mult_le_mono1)
  then have "(a * (S + 1) + b) * (S + 1) + c \<le> (S * (S + 1) + S) * (S + 1) + S"
    using assms by linarith
  also have "\<dots> < (S + 1) ^ 3"
    by (simp add: power3_eq_cube algebra_simps)
  finally show ?thesis .
qed

lemma cube_le_bound:
  fixes S :: nat
  assumes "S \<le> 1024"
  shows "(S + 1) ^ 3 \<le> 1076890625"
proof -
  have "(S + 1) ^ 3 \<le> 1025 ^ 3" using assms by (intro power_mono) simp_all
  also have "(1025::nat) ^ 3 = 1076890625" by simp
  finally show ?thesis .
qed

lemma unat_of_nat_small:
  fixes n :: nat
  assumes "n \<le> 1076890625"
  shows "unat (word_of_nat n :: uint32) = n"
proof -
  have "unat (1076890625 :: uint32) = 1076890625" by simp
  with assms have "n \<le> unat (1076890625 :: uint32)" by simp
  then show ?thesis by (rule le_unat_uoi)
qed

lemma word_index_unat:
  fixes w :: uint32 and a b c :: nat
  assumes "unat w \<le> 1024" "a \<le> unat w" "b \<le> unat w" "c \<le> unat w"
  shows "unat ((word_of_nat a * (w + 1) + word_of_nat b) * (w + 1) + word_of_nat c)
           = (a * (unat w + 1) + b) * (unat w + 1) + c"
proof -
  define S where "S = unat w"
  have e: "w = word_of_nat S" by (simp add: S_def)
  have "(word_of_nat a * (w + 1) + word_of_nat b) * (w + 1) + word_of_nat c
          = (word_of_nat ((a * (S + 1) + b) * (S + 1) + c) :: uint32)"
    by (simp add: e algebra_simps)
  moreover have "(a * (S + 1) + b) * (S + 1) + c \<le> 1076890625"
    using index_lt_cube [of a S b c] cube_le_bound [of S] assms by (simp add: S_def)
  ultimately have "unat ((word_of_nat a * (w + 1) + word_of_nat b) * (w + 1) + word_of_nat c)
      = (a * (S + 1) + b) * (S + 1) + c"
    by (simp only: unat_of_nat_small)
  then show ?thesis by (simp only: S_def)
qed

lemma word_succ_unat:
  fixes w :: uint32
  assumes "unat w \<le> 1024"
  shows "unat (w + 1) = unat w + 1"
proof -
  define S where "S = unat w"
  have e: "w = word_of_nat S" by (simp add: S_def)
  have "w + 1 = (word_of_nat (S + 1) :: uint32)"
    by (simp add: e)
  moreover have "S + 1 \<le> 1076890625"
    using assms by (simp add: S_def)
  ultimately have "unat (w + 1) = S + 1"
    by (simp only: unat_of_nat_small)
  then show ?thesis by (simp only: S_def)
qed

lemma word_square_unat:
  fixes w :: uint32
  assumes "unat w \<le> 1024"
  shows "unat ((w + 1) * (w + 1)) = (unat w + 1) * (unat w + 1)"
proof -
  define S where "S = unat w"
  have e: "w = word_of_nat S" by (simp add: S_def)
  have "(w + 1) * (w + 1) = (word_of_nat ((S + 1) * (S + 1)) :: uint32)"
    by (simp add: e algebra_simps)
  moreover have "(S + 1) * (S + 1) \<le> 1076890625"
  proof -
    have "(S + 1) * (S + 1) \<le> 1025 * 1025"
      using assms by (intro mult_mono) (simp_all add: S_def)
    then show ?thesis by simp
  qed
  ultimately have "unat ((w + 1) * (w + 1)) = (S + 1) * (S + 1)"
    by (simp only: unat_of_nat_small)
  then show ?thesis by (simp only: S_def)
qed

lemma word_cube_unat:
  fixes w :: uint32
  assumes "unat w \<le> 1024"
  shows "unat ((w + 1) * (w + 1) * (w + 1)) = (unat w + 1) ^ 3"
proof -
  define S where "S = unat w"
  have e: "w = word_of_nat S" by (simp add: S_def)
  have "(w + 1) * (w + 1) * (w + 1) = (word_of_nat ((S + 1) ^ 3) :: uint32)"
    by (simp add: e power3_eq_cube algebra_simps)
  moreover have "(S + 1) ^ 3 \<le> 1076890625"
    using cube_le_bound [of S] assms by (simp add: S_def)
  ultimately have "unat ((w + 1) * (w + 1) * (w + 1)) = (S + 1) ^ 3"
    by (simp only: unat_of_nat_small)
  then show ?thesis by (simp only: S_def)
qed

lemma grid_inv_length:
  assumes "grid_inv g"
  shows "length (m_mat g) = vertexCount g"
  using assms grid_inv_size(2) [OF assms]
  by (simp add: grid_inv_def vertexCount_def word_cube_unat)

lemma grid_inv_half:
  assumes "grid_inv g"
  shows "2 * m_halfSize g = int (unat (m_size g))"
proof -
  define S where "S = unat (m_size g)"
  have ev: "even S" and h: "m_halfSize g = int (S div 2)"
    using grid_inv_size(3,4) [OF assms] by (simp_all only: S_def)
  from ev obtain k where k: "S = 2 * k" by (elim evenE)
  have "2 * m_halfSize g = int S" unfolding h k by simp
  then show ?thesis by (simp only: S_def)
qed

lemma grid_inv_half_le:
  assumes "grid_inv g"
  shows "0 < m_halfSize g" and "m_halfSize g \<le> 512"
  using grid_inv_half [OF assms] grid_inv_size(1,2) [OF assms] by linarith+

lemma glm_abs_negatable:
  assumes "negatable v"
  shows "glm_abs v = \<bar>v\<bar>"
proof (cases "0 \<le> v")
  case True
  then show ?thesis by (simp add: glm_abs_def)
next
  case False
  have "signed_take_bit 31 (- v) = - v"
    by (rule signed_take_bit_int_eq_self) (use assms False in \<open>simp_all add: negatable_def\<close>)
  then have "sint (word_of_int (- v) :: uint32) = - v"
    by (simp only: sint_sbintrunc') simp
  then show ?thesis
    using False unfolding glm_abs_def int32_t_def uint32_t_def by simp
qed

lemma glm_abs_min: "glm_abs (- 2147483648) = - 2147483648"
  by (simp add: glm_abs_def int32_t_def uint32_t_def)

lemma isVertexInGrid_negatable:
  assumes "negatable x" "negatable y" "negatable z"
  shows "isVertexInGrid g x y z \<longleftrightarrow> inLattice g x y z"
  using assms by (auto simp: isVertexInGrid_def inLattice_def glm_abs_negatable)

lemma inLattice_negatable:
  assumes "grid_inv g" and "inLattice g x y z"
  shows "negatable x" and "negatable y" and "negatable z"
  using grid_inv_half_le [OF assms(1)] assms(2) by (simp_all add: inLattice_def negatable_def)

lemma inLattice_accepted:
  assumes "grid_inv g" and "inLattice g x y z"
  shows "isVertexInGrid g x y z"
  unfolding isVertexInGrid_negatable [OF inLattice_negatable [OF assms]] by (rule assms(2))

lemma uint32_t_nonneg:
  assumes "0 \<le> v"
  shows "uint32_t v = word_of_nat (nat v)"
  unfolding uint32_t_def by (rule word_of_int_nat [OF assms])

lemma pointToIndex_in_grid:
  assumes inv: "grid_inv g" and v: "inLattice g x y z"
  shows "\<exists>i. pointToIndex g x y z = Inr i \<and>
             unat i = (nat (y + m_halfSize g) * (unat (m_size g) + 1) + nat (x + m_halfSize g))
                        * (unat (m_size g) + 1) + nat (z + m_halfSize g) \<and>
             nat (x + m_halfSize g) \<le> unat (m_size g) \<and>
             nat (y + m_halfSize g) \<le> unat (m_size g) \<and>
             nat (z + m_halfSize g) \<le> unat (m_size g)"
proof -
  note sz = grid_inv_size [OF inv]
  note twice = grid_inv_half [OF inv]
  from v have r: "- m_halfSize g \<le> x" "x \<le> m_halfSize g" "- m_halfSize g \<le> y"
    "y \<le> m_halfSize g" "- m_halfSize g \<le> z" "z \<le> m_halfSize g"
    by (simp_all add: inLattice_def)
  have bx: "nat (x + m_halfSize g) \<le> unat (m_size g)" using r twice by linarith
  have "by": "nat (y + m_halfSize g) \<le> unat (m_size g)" using r twice by linarith
  have bz: "nat (z + m_halfSize g) \<le> unat (m_size g)" using r twice by linarith
  have px: "0 \<le> x + m_halfSize g" and py: "0 \<le> y + m_halfSize g"
    and pz: "0 \<le> z + m_halfSize g" using r by linarith+
  have "pointToIndex g x y z =
      Inr ((word_of_nat (nat (y + m_halfSize g)) * (m_size g + 1) + word_of_nat (nat (x + m_halfSize g)))
            * (m_size g + 1) + word_of_nat (nat (z + m_halfSize g)))"
    using inLattice_accepted [OF inv v] by (simp only: pointToIndex_def Let_def uint32_t_nonneg [OF px]
        uint32_t_nonneg [OF py] uint32_t_nonneg [OF pz] not_True_eq_False if_False)
  then show ?thesis
    using word_index_unat [OF sz(2) "by" bx bz] bx "by" bz by blast
qed

section \<open>Construction\<close>

lemma UniformGrid_new_success:
  assumes a: "\<not> unat sz < 2" and b: "is_power_of_two (unat sz)" and c: "unat sz \<le> 1024"
  shows "\<exists>g. UniformGrid_new sz globalPos gridStep heap = Inr g \<and> grid_inv g \<and> m_size g = sz \<and>
             m_halfSize g = int (unat sz div 2) \<and> length (m_mat g) = (unat sz + 1) ^ 3 \<and>
             m_globalPos g = globalPos \<and> m_gridStep g = gridStep"
proof -
  from a have nz: "sz \<noteq> 0" by auto
  have t1: "\<not> sz < 2" using a by (simp add: word_less_nat_alt)
  have t2: "sz AND (sz - 1) = 0" using b nz by (simp add: word_and_pred_zero_iff)
  have t3: "\<not> sz > 1024" using c by (simp add: word_less_nat_alt)
  define g where "g = \<lparr> m_size = sz, m_halfSize = int32_t sz sdiv 2,
                 m_globalPos = globalPos, m_gridStep = gridStep,
                 m_mat = map heap [0 ..< unat ((sz + 1) * (sz + 1) * (sz + 1))],
                 m_edgeX = [], m_edgeY = [], m_edgeZ = [] \<rparr>"
  have r: "UniformGrid_new sz globalPos gridStep heap = Inr g"
    using t1 t2 t3 by (simp add: UniformGrid_new_def g_def)
  have inv: "grid_inv g"
    using t1 t2 t3 by (simp add: grid_inv_def g_def)
  have sel: "m_size g = sz" "m_globalPos g = globalPos" "m_gridStep g = gridStep"
    by (simp_all add: g_def)
  have h: "m_halfSize g = int (unat sz div 2)"
    using grid_inv_size(4) [OF inv] by (simp only: sel)
  have l: "length (m_mat g) = (unat sz + 1) ^ 3"
    using grid_inv_length [OF inv] by (simp only: vertexCount_def sel)
  from r inv sel h l show ?thesis by blast
qed

text \<open>
  Claim C7. The constructor signals an error and constructs no object for a size below 2
  (\<open>invalid_argument\<close>, "Grid size should be at least two"), for a size of at least 2
  that is not a power of two (\<open>invalid_argument\<close>, "Grid size is not a power of two")
  and for a power of two above 1024 (\<open>length_error\<close>); every size above 1024 is
  rejected. For every power of two from 2 to 1024 construction succeeds, with
  \<open>halfSize = size / 2\<close> and a material array of \<open>(size + 1)\<^sup>3\<close> entries.
\<close>

theorem UniformGrid_new_checks:
  "(unat sz < 2 \<longrightarrow>
      UniformGrid_new sz globalPos gridStep heap
        = Inl (invalid_argument ''Grid size should be at least two'')) \<and>
   (\<not> unat sz < 2 \<and> \<not> is_power_of_two (unat sz) \<longrightarrow>
      UniformGrid_new sz globalPos gridStep heap
        = Inl (invalid_argument ''Grid size is not a power of two'')) \<and>
   (is_power_of_two (unat sz) \<and> 1024 < unat sz \<longrightarrow>
      UniformGrid_new sz globalPos gridStep heap
        = Inl (length_error ''Too large grid size (> 1024)'')) \<and>
   (1024 < unat sz \<longrightarrow> isl (UniformGrid_new sz globalPos gridStep heap)) \<and>
   (\<not> unat sz < 2 \<and> is_power_of_two (unat sz) \<and> unat sz \<le> 1024 \<longrightarrow>
      (\<exists>g. UniformGrid_new sz globalPos gridStep heap = Inr g \<and> m_size g = sz \<and>
           m_halfSize g = int (unat sz div 2) \<and> length (m_mat g) = (unat sz + 1) ^ 3))"
proof (intro conjI impI)
  assume "unat sz < 2"
  then have "sz < 2" by (simp add: word_less_nat_alt)
  then show "UniformGrid_new sz globalPos gridStep heap
        = Inl (invalid_argument ''Grid size should be at least two'')"
    by (simp add: UniformGrid_new_def)
next
  assume a: "\<not> unat sz < 2 \<and> \<not> is_power_of_two (unat sz)"
  then have nz: "sz \<noteq> 0" by auto
  from a have "\<not> sz < 2" by (simp add: word_less_nat_alt)
  moreover from a nz have "sz AND (sz - 1) \<noteq> 0" by (simp add: word_and_pred_zero_iff)
  ultimately show "UniformGrid_new sz globalPos gridStep heap
        = Inl (invalid_argument ''Grid size is not a power of two'')"
    by (simp add: UniformGrid_new_def)
next
  assume a: "is_power_of_two (unat sz) \<and> 1024 < unat sz"
  then have nz: "sz \<noteq> 0" by auto
  from a have "\<not> sz < 2" "sz > 1024" by (simp_all add: word_less_nat_alt)
  moreover from a nz have "sz AND (sz - 1) = 0" by (simp add: word_and_pred_zero_iff)
  ultimately show "UniformGrid_new sz globalPos gridStep heap
        = Inl (length_error ''Too large grid size (> 1024)'')"
    by (simp add: UniformGrid_new_def)
next
  assume "1024 < unat sz"
  then have "sz > 1024" by (simp add: word_less_nat_alt)
  then show "isl (UniformGrid_new sz globalPos gridStep heap)"
    by (simp add: UniformGrid_new_def)
next
  assume "\<not> unat sz < 2 \<and> is_power_of_two (unat sz) \<and> unat sz \<le> 1024"
  then show "\<exists>g. UniformGrid_new sz globalPos gridStep heap = Inr g \<and> m_size g = sz \<and>
           m_halfSize g = int (unat sz div 2) \<and> length (m_mat g) = (unat sz + 1) ^ 3"
    using UniformGrid_new_success [of sz globalPos gridStep heap] by blast
qed

theorem UniformGrid_new_checks_witness:
  "UniformGrid_new 1 \<lparr>vx = 0, vy = 0, vz = 0\<rparr> (1::real) (\<lambda>i. Empty)
     = Inl (invalid_argument ''Grid size should be at least two'') \<and>
   UniformGrid_new 6 \<lparr>vx = 0, vy = 0, vz = 0\<rparr> (1::real) (\<lambda>i. Empty)
     = Inl (invalid_argument ''Grid size is not a power of two'') \<and>
   UniformGrid_new 2048 \<lparr>vx = 0, vy = 0, vz = 0\<rparr> (1::real) (\<lambda>i. Empty)
     = Inl (length_error ''Too large grid size (> 1024)'') \<and>
   isl (UniformGrid_new 3000 \<lparr>vx = 0, vy = 0, vz = 0\<rparr> (1::real) (\<lambda>i. Empty)) \<and>
   (\<exists>g. UniformGrid_new 8 \<lparr>vx = 0, vy = 0, vz = 0\<rparr> (1::real) (\<lambda>i. Empty) = Inr g \<and>
        m_size g = 8 \<and> m_halfSize g = 4 \<and> length (m_mat g) = 729)"
proof -
  have p8: "is_power_of_two (unat (8 :: uint32))"
    unfolding is_power_of_two_def by (rule exI [of _ 3]) simp
  have p2048: "is_power_of_two (unat (2048 :: uint32))"
    unfolding is_power_of_two_def by (rule exI [of _ 11]) simp
  have "\<not> is_power_of_two 6"
    using and_pred_nat_zero_iff [of 6] by simp
  then have p6: "\<not> is_power_of_two (unat (6 :: uint32))" by simp
  show ?thesis
    using UniformGrid_new_checks [of 1 "\<lparr>vx = 0, vy = 0, vz = 0\<rparr>" "1::real" "\<lambda>i. Empty"]
      UniformGrid_new_checks [of 6 "\<lparr>vx = 0, vy = 0, vz = 0\<rparr>" "1::real" "\<lambda>i. Empty"]
      UniformGrid_new_checks [of 2048 "\<lparr>vx = 0, vy = 0, vz = 0\<rparr>" "1::real" "\<lambda>i. Empty"]
      UniformGrid_new_checks [of 3000 "\<lparr>vx = 0, vy = 0, vz = 0\<rparr>" "1::real" "\<lambda>i. Empty"]
      UniformGrid_new_checks [of 8 "\<lparr>vx = 0, vy = 0, vz = 0\<rparr>" "1::real" "\<lambda>i. Empty"]
      p8 p2048 p6
    by simp
qed

section \<open>Addressing\<close>

lemma pointToIndex_bound:
  assumes inv: "grid_inv g" and v: "inLattice g x y z"
  shows "\<exists>i. pointToIndex g x y z = Inr i \<and> unat i < vertexCount g \<and>
             uint i = indexFormula g x y z"
proof -
  from pointToIndex_in_grid [OF inv v] obtain i where
    i: "pointToIndex g x y z = Inr i"
    and u: "unat i = (nat (y + m_halfSize g) * (unat (m_size g) + 1) + nat (x + m_halfSize g))
                        * (unat (m_size g) + 1) + nat (z + m_halfSize g)"
    and b: "nat (x + m_halfSize g) \<le> unat (m_size g)" "nat (y + m_halfSize g) \<le> unat (m_size g)"
      "nat (z + m_halfSize g) \<le> unat (m_size g)"
    by blast
  have lt: "unat i < vertexCount g"
    unfolding u vertexCount_def by (rule index_lt_cube [OF b(2) b(1) b(3)])
  from v have r: "0 \<le> x + m_halfSize g" "0 \<le> y + m_halfSize g" "0 \<le> z + m_halfSize g"
    by (simp_all add: inLattice_def)
  have "int (unat i) = indexFormula g x y z"
    unfolding u indexFormula_def using r by (simp add: algebra_simps)
  then have "uint i = indexFormula g x y z" by (simp only: uint_nat)
  with i lt show ?thesis by blast
qed

text \<open>
  For every coordinate but the most negative \<open>int32_t\<close>, \<open>isVertexInGrid\<close> accepts exactly
  the lattice coordinates, \<open>pointToIndex\<close> of an accepted coordinate is below
  \<open>(size + 1)\<^sup>3\<close>, and \<open>at\<close> passes its assertion and reads inside the material array;
  for a coordinate that is not accepted, \<open>at\<close> stops at its assertion.
\<close>

lemma at_negatable:
  assumes inv: "grid_inv g" and n: "negatable x" "negatable y" "negatable z"
  shows "(isVertexInGrid g x y z \<longrightarrow>
            (\<exists>i. pointToIndex g x y z = Inr i \<and> unat i < vertexCount g \<and>
                 unat i < length (m_mat g) \<and> at_vertex g x y z = Inr (m_mat g ! unat i))) \<and>
         (\<not> isVertexInGrid g x y z \<longrightarrow> at_vertex g x y z = Inl AssertionFailed)"
proof (intro conjI impI)
  assume a: "isVertexInGrid g x y z"
  then have v: "inLattice g x y z" by (simp only: isVertexInGrid_negatable [OF n])
  from pointToIndex_bound [OF inv v] obtain i where
    i: "pointToIndex g x y z = Inr i" and lt: "unat i < vertexCount g" by blast
  from lt have len: "unat i < length (m_mat g)" by (simp add: grid_inv_length [OF inv])
  have "at_vertex g x y z = Inr (m_mat g ! unat i)"
    using a i len by (simp add: at_vertex_def)
  with i lt len show "\<exists>i. pointToIndex g x y z = Inr i \<and> unat i < vertexCount g \<and>
                 unat i < length (m_mat g) \<and> at_vertex g x y z = Inr (m_mat g ! unat i)"
    by blast
next
  assume "\<not> isVertexInGrid g x y z"
  then show "at_vertex g x y z = Inl AssertionFailed" by (simp add: at_vertex_def)
qed

lemma grid2_inv: "grid_inv grid2"
  by (simp add: grid_inv_def grid2_def int32_t_def)

text \<open>
  Claim C9. Every coordinate accepted by \<open>isVertexInGrid\<close> should have \<open>pointToIndex\<close>
  below \<open>(size + 1)\<^sup>3\<close>, so that \<open>at\<close> reads inside the material array. The code misses
  one case: \<open>glm::abs\<close> of the most negative \<open>int32_t\<close> is negative, so on the grid of
  size 2 the coordinate \<open>(-2\<^sup>3\<^sup>1, 0, 0)\<close> passes \<open>isVertexInGrid\<close> and both assertions,
  \<open>pointToIndex\<close> returns 2147483661 for an array of 27 entries, and \<open>at\<close> reads outside
  the array.
\<close>

theorem at_most_negative:
  "grid_inv grid2 \<and> isVertexInGrid grid2 (- 2147483648) 0 0 \<and>
   pointToIndex grid2 (- 2147483648) 0 0 = Inr 2147483661 \<and>
   vertexCount grid2 = 27 \<and> length (m_mat grid2) = 27 \<and>
   at_vertex grid2 (- 2147483648) 0 0 = Inl OutOfBounds"
proof -
  have v: "isVertexInGrid grid2 (- 2147483648) 0 0"
    by (simp add: isVertexInGrid_def glm_abs_min) (simp add: glm_abs_def grid2_def)
  have p: "pointToIndex grid2 (- 2147483648) 0 0 = Inr 2147483661"
    using v by (simp add: pointToIndex_def uint32_t_def grid2_def)
  have c: "vertexCount grid2 = 27" "length (m_mat grid2) = 27"
    by (simp_all add: vertexCount_def grid2_def)
  have "at_vertex grid2 (- 2147483648) 0 0 = Inl OutOfBounds"
    using v p c by (simp add: at_vertex_def)
  with grid2_inv v p c show ?thesis by simp
qed

lemma index_digits:
  fixes a b c n :: nat
  assumes "b < n" "c < n"
  shows "((a * n + b) * n + c) mod n = c"
    and "((a * n + b) * n + c) div n = a * n + b"
  using assms by simp_all

lemma index_digits2:
  fixes a b n :: nat
  assumes "b < n"
  shows "(a * n + b) mod n = b" and "(a * n + b) div n = a"
  using assms by simp_all

lemma indexToPoint_of_digits:
  assumes inv: "grid_inv g"
    and a: "a \<le> unat (m_size g)" and b: "b \<le> unat (m_size g)" and c: "c \<le> unat (m_size g)"
    and u: "unat i = (a * (unat (m_size g) + 1) + b) * (unat (m_size g) + 1) + c"
  shows "indexToPoint g i =
           Inr \<lparr> vx = int b - m_halfSize g, vy = int a - m_halfSize g, vz = int c - m_halfSize g \<rparr>"
proof -
  define n where "n = unat (m_size g) + 1"
  note sz = grid_inv_size [OF inv]
  have n: "unat (m_size g + 1) = n"
    unfolding n_def by (rule word_succ_unat [OF sz(2)])
  have lt: "b < n" "c < n" using b c by (simp_all add: n_def)
  have u': "unat i = (a * n + b) * n + c" using u by (simp only: n_def)
  have small: "a \<le> 1025" "b \<le> 1025" "c \<le> 1025" using a b c sz(2) by linarith+
  have m1: "unat (i mod (m_size g + 1)) = c"
    by (simp only: unat_mod n u' index_digits(1) [OF lt])
  have d1: "unat (i div (m_size g + 1)) = a * n + b"
    by (simp only: unat_div n u' index_digits(2) [OF lt])
  have m2: "unat (i div (m_size g + 1) mod (m_size g + 1)) = b"
    using unat_mod [of "i div (m_size g + 1)" "m_size g + 1"]
    by (simp only: d1 n index_digits2(1) [OF lt(1)])
  have d2: "unat (i div (m_size g + 1) div (m_size g + 1)) = a"
    using unat_div [of "i div (m_size g + 1)" "m_size g + 1"]
    by (simp only: d1 n index_digits2(2) [OF lt(1)])
  have z: "int32_t (i mod (m_size g + 1)) = int c"
    using int32_t_small [of "i mod (m_size g + 1)"] small by (simp only: m1)
  have x: "int32_t (i div (m_size g + 1) mod (m_size g + 1)) = int b"
    using int32_t_small [of "i div (m_size g + 1) mod (m_size g + 1)"] small by (simp only: m2)
  have y: "int32_t (i div (m_size g + 1) div (m_size g + 1)) = int a"
    using int32_t_small [of "i div (m_size g + 1) div (m_size g + 1)"] small by (simp only: d2)
  have "unat i < (unat (m_size g) + 1) ^ 3"
    unfolding u by (rule index_lt_cube [OF a b c])
  then have "unat i < unat ((m_size g + 1) * (m_size g + 1) * (m_size g + 1))"
    by (simp only: word_cube_unat [OF sz(2)])
  then have ok: "i < (m_size g + 1) * (m_size g + 1) * (m_size g + 1)"
    by (simp only: word_less_nat_alt)
  show ?thesis
    unfolding indexToPoint_def Let_def using ok by (simp only: x y z not_True_eq_False if_False simp_thms)
qed

lemma latticePoints_iff:
  "p \<in> latticePoints g \<longleftrightarrow> inLattice g (vx p) (vy p) (vz p)"
  by (simp add: latticePoints_def inLattice_def)

lemma pointToIndex_roundtrip:
  assumes inv: "grid_inv g" and v: "inLattice g x y z"
  shows "\<exists>i. pointToIndex g x y z = Inr i \<and> unat i < vertexCount g \<and>
             uint i = indexFormula g x y z \<and>
             indexToPoint g i = Inr \<lparr> vx = x, vy = y, vz = z \<rparr>"
proof -
  from pointToIndex_in_grid [OF inv v] obtain i where
    i: "pointToIndex g x y z = Inr i"
    and u: "unat i = (nat (y + m_halfSize g) * (unat (m_size g) + 1) + nat (x + m_halfSize g))
                        * (unat (m_size g) + 1) + nat (z + m_halfSize g)"
    and b: "nat (x + m_halfSize g) \<le> unat (m_size g)" "nat (y + m_halfSize g) \<le> unat (m_size g)"
      "nat (z + m_halfSize g) \<le> unat (m_size g)"
    by blast
  from pointToIndex_bound [OF inv v] i have
    lt: "unat i < vertexCount g" and f: "uint i = indexFormula g x y z" by auto
  from v have r: "0 \<le> x + m_halfSize g" "0 \<le> y + m_halfSize g" "0 \<le> z + m_halfSize g"
    by (simp_all add: inLattice_def)
  have "indexToPoint g i = Inr \<lparr> vx = int (nat (x + m_halfSize g)) - m_halfSize g,
      vy = int (nat (y + m_halfSize g)) - m_halfSize g,
      vz = int (nat (z + m_halfSize g)) - m_halfSize g \<rparr>"
    by (rule indexToPoint_of_digits [OF inv b(2) b(1) b(3) u])
  then have "indexToPoint g i = Inr \<lparr> vx = x, vy = y, vz = z \<rparr>"
    using r by simp
  with i lt f show ?thesis by blast
qed

lemma digits_of_index:
  fixes j n :: nat
  assumes "0 < n" "j < n ^ 3"
  shows "j div (n * n) < n" and "(j div n) mod n < n" and "j mod n < n"
    and "(j div (n * n) * n + (j div n) mod n) * n + j mod n = j"
proof -
  from assms(2) have "j < n * (n * n)" by (simp add: power3_eq_cube)
  then show "j div (n * n) < n"
    using assms(1) by (simp add: less_mult_imp_div_less mult.commute)
  show "(j div n) mod n < n" "j mod n < n" using assms(1) by simp_all
  have "j div (n * n) = (j div n) div n" by (simp add: div_mult2_eq)
  then have "j div (n * n) * n + (j div n) mod n = j div n" by simp
  then show "(j div (n * n) * n + (j div n) mod n) * n + j mod n = j" by simp
qed

lemma vertexIndex_props:
  assumes inv: "grid_inv g" and p: "p \<in> latticePoints g"
  shows "\<exists>i. pointToIndex_v g p = Inr i \<and> vertexIndex g p = unat i \<and> unat i < vertexCount g \<and>
             uint i = indexFormula g (vx p) (vy p) (vz p) \<and> indexToPoint g i = Inr p"
proof -
  from p have v: "inLattice g (vx p) (vy p) (vz p)" by (simp only: latticePoints_iff)
  from pointToIndex_roundtrip [OF inv v] obtain i where
    i: "pointToIndex g (vx p) (vy p) (vz p) = Inr i" and lt: "unat i < vertexCount g"
    and f: "uint i = indexFormula g (vx p) (vy p) (vz p)"
    and r: "indexToPoint g i = Inr \<lparr> vx = vx p, vy = vy p, vz = vz p \<rparr>"
    by blast
  from r have r': "indexToPoint g i = Inr p" by simp
  from i have "pointToIndex_v g p = Inr i" "vertexIndex g p = unat i"
    by (simp_all add: pointToIndex_v_def vertexIndex_def)
  with lt f r' show ?thesis by blast
qed

lemma vertexIndex_inj:
  assumes inv: "grid_inv g"
  shows "inj_on (vertexIndex g) (latticePoints g)"
proof (rule inj_onI)
  fix p q
  assume p: "p \<in> latticePoints g" and q: "q \<in> latticePoints g"
    and e: "vertexIndex g p = vertexIndex g q"
  from vertexIndex_props [OF inv p] obtain i where
    i: "vertexIndex g p = unat i" "indexToPoint g i = Inr p" by blast
  from vertexIndex_props [OF inv q] obtain j where
    j: "vertexIndex g q = unat j" "indexToPoint g j = Inr q" by blast
  from e i(1) j(1) have "unat i = unat j" by simp
  then have "i = j" by (simp only: word_unat_eq_iff)
  with i(2) j(2) show "p = q" by simp
qed

lemma vertexIndex_surj:
  assumes inv: "grid_inv g" and j: "j < vertexCount g"
  shows "\<exists>p \<in> latticePoints g. vertexIndex g p = j"
proof -
  define n where "n = unat (m_size g) + 1"
  define a where "a = j div (n * n)"
  define b where "b = (j div n) mod n"
  define c where "c = j mod n"
  have npos: "0 < n" by (simp add: n_def)
  from j have jn: "j < n ^ 3" by (simp only: vertexCount_def n_def)
  note dg = digits_of_index [OF npos jn]
  have le: "a \<le> unat (m_size g)" "b \<le> unat (m_size g)" "c \<le> unat (m_size g)"
    using dg(1,2,3) by (simp_all add: a_def b_def c_def n_def)
  have sum: "(a * n + b) * n + c = j" using dg(4) by (simp only: a_def b_def c_def)
  note twice = grid_inv_half [OF inv]
  define p where "p = \<lparr> vx = int b - m_halfSize g, vy = int a - m_halfSize g,
                         vz = int c - m_halfSize g \<rparr>"
  have sel: "vx p = int b - m_halfSize g" "vy p = int a - m_halfSize g"
    "vz p = int c - m_halfSize g" by (simp_all add: p_def)
  have v: "inLattice g (vx p) (vy p) (vz p)"
    unfolding inLattice_def sel using le twice by linarith
  then have pl: "p \<in> latticePoints g" by (simp only: latticePoints_iff)
  from pointToIndex_in_grid [OF inv v] obtain i where
    i: "pointToIndex g (vx p) (vy p) (vz p) = Inr i"
    and u: "unat i = (nat (vy p + m_halfSize g) * (unat (m_size g) + 1) + nat (vx p + m_halfSize g))
                        * (unat (m_size g) + 1) + nat (vz p + m_halfSize g)"
    by blast
  have "unat i = (a * n + b) * n + c"
    unfolding u sel by (simp add: n_def)
  with sum have "unat i = j" by simp
  moreover from i have "vertexIndex g p = unat i"
    by (simp add: pointToIndex_v_def vertexIndex_def)
  ultimately show ?thesis using pl by auto
qed

text \<open>
  Claim C2. For every lattice coordinate with every component in \<open>[-halfSize, halfSize]\<close>,
  \<open>pointToIndex\<close> equals \<open>((y + half) (size + 1) + (x + half)) (size + 1) + (z + half)\<close>
  and \<open>indexToPoint\<close> maps the index back to the coordinate; the mapping is a bijection
  between these coordinates and the indices below \<open>(size + 1)\<^sup>3\<close>.
\<close>

theorem pointToIndex_bijection:
  assumes "grid_inv g"
  shows "(\<forall>p \<in> latticePoints g.
            \<exists>i. pointToIndex_v g p = Inr i \<and> uint i = indexFormula g (vx p) (vy p) (vz p) \<and>
                indexToPoint g i = Inr p) \<and>
         bij_betw (vertexIndex g) (latticePoints g) {..< vertexCount g}"
proof
  show "\<forall>p \<in> latticePoints g.
            \<exists>i. pointToIndex_v g p = Inr i \<and> uint i = indexFormula g (vx p) (vy p) (vz p) \<and>
                indexToPoint g i = Inr p"
    using vertexIndex_props [OF assms] by blast
  have "vertexIndex g ` latticePoints g = {..< vertexCount g}"
  proof (intro equalityI subsetI)
    fix j assume "j \<in> vertexIndex g ` latticePoints g"
    then obtain p where "p \<in> latticePoints g" "j = vertexIndex g p" by blast
    with vertexIndex_props [OF assms, of p] show "j \<in> {..< vertexCount g}" by auto
  next
    fix j assume "j \<in> {..< vertexCount g}"
    then have "j < vertexCount g" by simp
    from vertexIndex_surj [OF assms this] show "j \<in> vertexIndex g ` latticePoints g" by blast
  qed
  with vertexIndex_inj [OF assms]
  show "bij_betw (vertexIndex g) (latticePoints g) {..< vertexCount g}"
    by (simp only: bij_betw_def simp_thms)
qed

theorem pointToIndex_bijection_witness:
  "grid_inv grid2 \<and> \<lparr>vx = 1, vy = - 1, vz = 0\<rparr> \<in> latticePoints grid2 \<and>
   pointToIndex_v grid2 \<lparr>vx = 1, vy = - 1, vz = 0\<rparr> = Inr 7 \<and>
   indexFormula grid2 1 (- 1) 0 = 7 \<and>
   indexToPoint grid2 7 = Inr \<lparr>vx = 1, vy = - 1, vz = 0\<rparr> \<and>
   bij_betw (vertexIndex grid2) (latticePoints grid2) {..< 27}"
proof -
  have l: "\<lparr>vx = 1, vy = - 1, vz = 0\<rparr> \<in> latticePoints grid2"
    by (simp add: latticePoints_def grid2_def)
  have p: "pointToIndex_v grid2 \<lparr>vx = 1, vy = - 1, vz = 0\<rparr> = Inr 7"
    by (simp add: pointToIndex_v_def pointToIndex_def isVertexInGrid_def glm_abs_def int32_t_def
        uint32_t_def grid2_def)
  have f: "indexFormula grid2 1 (- 1) 0 = 7"
    by (simp add: indexFormula_def grid2_def)
  have c: "vertexCount grid2 = 27"
    by (simp add: vertexCount_def grid2_def)
  from pointToIndex_bijection [OF grid2_inv] l p
  have "indexToPoint grid2 7 = Inr \<lparr>vx = 1, vy = - 1, vz = 0\<rparr>"
    and "bij_betw (vertexIndex grid2) (latticePoints grid2) {..< 27}"
    by (auto simp: c)
  with grid2_inv l p f show ?thesis by simp
qed

section \<open>Neighbouring indices\<close>

lemma pointToIndex_word:
  assumes "isVertexInGrid g x y z"
  shows "pointToIndex g x y z =
           Inr ((word_of_int (y + m_halfSize g) * (m_size g + 1) + word_of_int (x + m_halfSize g))
                  * (m_size g + 1) + word_of_int (z + m_halfSize g))"
  using assms by (simp add: pointToIndex_def uint32_t_def Let_def)

lemma pointToIndex_shift:
  assumes v: "isVertexInGrid g x y z" and v': "isVertexInGrid g (x + dx) (y + dy) (z + dz)"
    and i: "pointToIndex g x y z = Inr i"
  shows "pointToIndex g (x + dx) (y + dy) (z + dz) =
           Inr (i + word_of_int dx * (m_size g + 1)
                  + word_of_int dy * ((m_size g + 1) * (m_size g + 1)) + word_of_int dz)"
proof -
  from i have e: "i = (word_of_int (y + m_halfSize g) * (m_size g + 1) + word_of_int (x + m_halfSize g))
                  * (m_size g + 1) + word_of_int (z + m_halfSize g)"
    by (simp add: pointToIndex_word [OF v])
  show ?thesis
    unfolding pointToIndex_word [OF v'] e by (simp add: algebra_simps)
qed

lemma isCellInGrid_iff:
  "isCellInGrid g c \<longleftrightarrow>
     - m_halfSize g \<le> vx c \<and> vx c < m_halfSize g \<and> - m_halfSize g \<le> vy c \<and> vy c < m_halfSize g \<and>
     - m_halfSize g \<le> vz c \<and> vz c < m_halfSize g"
  by (auto simp: isCellInGrid_def)

lemma cellCorners_in_grid:
  assumes "isCellInGrid g c" and "p \<in> set (cellCorners c)"
  shows "p \<in> latticePoints g"
  using assms by (auto simp: isCellInGrid_iff cellCorners_def latticePoints_def)

lemma pointToIndex_v_inj:
  assumes inv: "grid_inv g"
  shows "inj_on (pointToIndex_v g) (latticePoints g)"
proof (rule inj_onI)
  fix p q
  assume p: "p \<in> latticePoints g" and q: "q \<in> latticePoints g"
    and e: "pointToIndex_v g p = pointToIndex_v g q"
  from vertexIndex_props [OF inv p] obtain i where
    i: "pointToIndex_v g p = Inr i" "indexToPoint g i = Inr p" by blast
  from vertexIndex_props [OF inv q] obtain j where
    j: "pointToIndex_v g q = Inr j" "indexToPoint g j = Inr q" by blast
  from e i(1) j(1) have "i = j" by simp
  with i(2) j(2) show "p = q" by simp
qed

lemma read_all_in_bounds:
  assumes "\<forall>v \<in> set vs. unat v < length ms"
  shows "read_all ms vs = Inr (map (\<lambda>v. ms ! unat v) vs)"
  using assms by (induction vs) (simp_all add: read_mat_def)

lemma materialsOfCell_read_all:
  "materialsOfCell g i = read_all (m_mat g) (adjacentVerticesForCell g i)"
  by (simp only: materialsOfCell_def adjacentVerticesForCell_def Let_def)

lemma adjacentVerticesForCell_map:
  assumes inv: "grid_inv g" and c: "isCellInGrid g c" and i: "pointToIndex_v g c = Inr i"
  shows "map Inr (adjacentVerticesForCell g i) = map (pointToIndex_v g) (cellCorners c)"
proof -
  from c have r: "- m_halfSize g \<le> vx c" "vx c < m_halfSize g" "- m_halfSize g \<le> vy c"
    "vy c < m_halfSize g" "- m_halfSize g \<le> vz c" "vz c < m_halfSize g"
    by (simp_all add: isCellInGrid_iff)
  have "inLattice g (vx c) (vy c) (vz c)"
    unfolding inLattice_def using r by linarith
  then have v: "isVertexInGrid g (vx c) (vy c) (vz c)" by (rule inLattice_accepted [OF inv])
  have i': "pointToIndex g (vx c) (vy c) (vz c) = Inr i"
    using i by (simp only: pointToIndex_v_def)
  have sh: "pointToIndex g (vx c + dx) (vy c + dy) (vz c + dz) =
           Inr (i + word_of_int dx * (m_size g + 1)
                  + word_of_int dy * ((m_size g + 1) * (m_size g + 1)) + word_of_int dz)"
    if "0 \<le> dx" "dx \<le> 1" "0 \<le> dy" "dy \<le> 1" "0 \<le> dz" "dz \<le> 1" for dx dy dz
  proof -
    have "inLattice g (vx c + dx) (vy c + dy) (vz c + dz)"
      unfolding inLattice_def using r that by linarith
    then have "isVertexInGrid g (vx c + dx) (vy c + dy) (vz c + dz)"
      by (rule inLattice_accepted [OF inv])
    from pointToIndex_shift [OF v this i'] show ?thesis .
  qed
  show ?thesis
    using sh [of 0 0 0] sh [of 0 0 1] sh [of 1 0 0] sh [of 1 0 1]
      sh [of 0 1 0] sh [of 0 1 1] sh [of 1 1 0] sh [of 1 1 1]
    by (simp add: adjacentVerticesForCell_def cellCorners_def pointToIndex_v_def Let_def
        algebra_simps)
qed

text \<open>
  Claim C10. For a cell accepted by \<open>isCellInGrid\<close>, \<open>adjacentVerticesForCell\<close> of the
  cell's index returns, in order, the indices of the eight corners \<open>C + (dx, dy, dz)\<close>
  with \<open>dx, dy, dz\<close> in \<open>{0, 1}\<close>; they are pairwise distinct and below
  \<open>(size + 1)\<^sup>3\<close>, so \<open>materialsOfCell\<close> reads the material array only in bounds.
\<close>

theorem adjacentVerticesForCell_corners:
  assumes inv: "grid_inv g" and c: "isCellInGrid g c"
  shows "\<exists>i. pointToIndex_v g c = Inr i \<and>
             length (adjacentVerticesForCell g i) = 8 \<and>
             map Inr (adjacentVerticesForCell g i) = map (pointToIndex_v g) (cellCorners c) \<and>
             distinct (adjacentVerticesForCell g i) \<and>
             (\<forall>v \<in> set (adjacentVerticesForCell g i). unat v < vertexCount g) \<and>
             materialsOfCell g i = Inr (map (\<lambda>v. m_mat g ! unat v) (adjacentVerticesForCell g i))"
proof -
  have "c \<in> set (cellCorners c)" by (simp add: cellCorners_def)
  from cellCorners_in_grid [OF c this] have cl: "c \<in> latticePoints g" .
  from vertexIndex_props [OF inv cl] obtain i where i: "pointToIndex_v g c = Inr i" by blast
  let ?vs = "adjacentVerticesForCell g i"
  have len: "length ?vs = 8" by (simp add: adjacentVerticesForCell_def Let_def)
  have m: "map Inr ?vs = map (pointToIndex_v g) (cellCorners c)"
    by (rule adjacentVerticesForCell_map [OF inv c i])
  have sub: "set (cellCorners c) \<subseteq> latticePoints g"
    using cellCorners_in_grid [OF c] by blast
  have "distinct (cellCorners c)" by (simp add: cellCorners_def)
  moreover have "inj_on (pointToIndex_v g) (set (cellCorners c))"
    using pointToIndex_v_inj [OF inv] sub by (rule inj_on_subset)
  ultimately have "distinct (map (pointToIndex_v g) (cellCorners c))"
    by (simp add: distinct_map)
  then have "distinct (map Inr ?vs :: (fault + uint32) list)" by (simp only: m)
  then have d: "distinct ?vs" by (simp add: distinct_map)
  have b: "\<forall>v \<in> set ?vs. unat v < vertexCount g"
  proof
    fix v assume "v \<in> set ?vs"
    then have "Inr v \<in> set (map Inr ?vs :: (fault + uint32) list)" by simp
    then have "Inr v \<in> set (map (pointToIndex_v g) (cellCorners c))" by (simp only: m)
    then obtain p where p: "p \<in> set (cellCorners c)" "pointToIndex_v g p = Inr v" by auto
    from p(1) sub have "p \<in> latticePoints g" by blast
    from vertexIndex_props [OF inv this] p(2) show "unat v < vertexCount g" by auto
  qed
  then have "\<forall>v \<in> set ?vs. unat v < length (m_mat g)"
    by (simp only: grid_inv_length [OF inv])
  then have r: "materialsOfCell g i = Inr (map (\<lambda>v. m_mat g ! unat v) ?vs)"
    by (simp only: materialsOfCell_read_all read_all_in_bounds)
  from i len m d b r show ?thesis by blast
qed

theorem adjacentVerticesForCell_corners_witness:
  "grid_inv grid2 \<and> isCellInGrid grid2 \<lparr>vx = 0, vy = - 1, vz = 0\<rparr> \<and>
   pointToIndex_v grid2 \<lparr>vx = 0, vy = - 1, vz = 0\<rparr> = Inr 4 \<and>
   adjacentVerticesForCell grid2 4 = [4, 5, 7, 8, 13, 14, 16, 17] \<and>
   map (pointToIndex_v grid2) (cellCorners \<lparr>vx = 0, vy = - 1, vz = 0\<rparr>)
     = map Inr [4, 5, 7, 8, 13, 14, 16, 17] \<and>
   materialsOfCell grid2 4 = Inr [Stone, Stone, Stone, Stone, Stone, Stone, Stone, Stone]"
proof -
  have c: "isCellInGrid grid2 \<lparr>vx = 0, vy = - 1, vz = 0\<rparr>"
    by (simp add: isCellInGrid_def grid2_def)
  have p: "pointToIndex_v grid2 \<lparr>vx = 0, vy = - 1, vz = 0\<rparr> = Inr 4"
    by (simp add: pointToIndex_v_def pointToIndex_def isVertexInGrid_def glm_abs_def int32_t_def
        uint32_t_def grid2_def)
  have a: "adjacentVerticesForCell grid2 4 = [4, 5, 7, 8, 13, 14, 16, 17]"
    by (simp add: adjacentVerticesForCell_def grid2_def)
  have m: "m_mat grid2 = replicate 27 Stone" by (simp add: grid2_def)
  from adjacentVerticesForCell_corners [OF grid2_inv c] obtain i where
    i: "pointToIndex_v grid2 \<lparr>vx = 0, vy = - 1, vz = 0\<rparr> = Inr i"
    and mp: "map Inr (adjacentVerticesForCell grid2 i)
               = map (pointToIndex_v grid2) (cellCorners \<lparr>vx = 0, vy = - 1, vz = 0\<rparr>)"
    and mt: "materialsOfCell grid2 i
               = Inr (map (\<lambda>v. m_mat grid2 ! unat v) (adjacentVerticesForCell grid2 i))"
    by blast
  from i p have i4: "i = 4" by simp
  have "map (pointToIndex_v grid2) (cellCorners \<lparr>vx = 0, vy = - 1, vz = 0\<rparr>)
     = map Inr [4, 5, 7, 8, 13, 14, 16, 17]"
    using mp by (simp only: i4 a)
  moreover have "materialsOfCell grid2 4 = Inr [Stone, Stone, Stone, Stone, Stone, Stone, Stone, Stone]"
    using mt unfolding i4 a m by simp
  ultimately have "map (pointToIndex_v grid2) (cellCorners \<lparr>vx = 0, vy = - 1, vz = 0\<rparr>)
     = map Inr [4, 5, 7, 8, 13, 14, 16, 17]"
    and "materialsOfCell grid2 4 = Inr [Stone, Stone, Stone, Stone, Stone, Stone, Stone, Stone]" by blast+
  with grid2_inv c p a show ?thesis by simp
qed

section \<open>Cells around an edge\<close>

lemma pointToIndex_v_raw:
  assumes "isVertexInGrid g (vx c) (vy c) (vz c)"
  shows "pointToIndex_v g c = Inr (rawIndex g c)"
  using assms by (simp add: pointToIndex_v_def pointToIndex_def rawIndex_def Let_def)

lemma rawIndex_pred_z:
  "rawIndex g \<lparr>vx = a, vy = b, vz = c\<rparr> - 1 = rawIndex g \<lparr>vx = a, vy = b, vz = c - 1\<rparr>"
  by (simp add: rawIndex_def uint32_t_def algebra_simps)

lemma rawIndex_pred_x:
  "rawIndex g \<lparr>vx = a, vy = b, vz = c\<rparr> - (m_size g + 1)
     = rawIndex g \<lparr>vx = a - 1, vy = b, vz = c\<rparr>"
  by (simp add: rawIndex_def uint32_t_def algebra_simps)

lemma rawIndex_pred_y:
  "rawIndex g \<lparr>vx = a, vy = b, vz = c\<rparr> - (m_size g + 1) * (m_size g + 1)
     = rawIndex g \<lparr>vx = a, vy = b - 1, vz = c\<rparr>"
  by (simp add: rawIndex_def uint32_t_def algebra_simps)

lemma grid_inv_half_pos:
  assumes "grid_inv g"
  shows "0 < m_halfSize g"
  using grid_inv_half [OF assms] grid_inv_size(1) [OF assms] by linarith

lemma isEdgeInGrid0_negatable:
  assumes "negatable (vy p)" "negatable (vz p)"
  shows "isEdgeInGrid0 g p \<longleftrightarrow> latticeEdge0 g p"
  using assms by (auto simp: isEdgeInGrid0_def latticeEdge0_def glm_abs_negatable)

lemma latticeEdge0_accepted:
  assumes "grid_inv g" and "latticeEdge0 g p"
  shows "isEdgeInGrid0 g p"
proof -
  from assms(2) have "inLattice g (vx p) (vy p) (vz p)"
    by (simp add: latticeEdge0_def inLattice_def)
  from inLattice_negatable [OF assms(1) this] assms(2) show ?thesis
    by (simp add: isEdgeInGrid0_negatable)
qed

lemma adjacentCellsForEdge0_explicit:
  assumes inv: "grid_inv g" and e: "latticeEdge0 g p"
  shows "adjacentCellsForEdge0 kBadIndex g p = Inr (map (sentinelOrIndex kBadIndex g) (edgeCells0 p))"
proof -
  note hp = grid_inv_half_pos [OF inv]
  from e have r: "- m_halfSize g \<le> vx p" "vx p < m_halfSize g" "- m_halfSize g \<le> vy p"
    "vy p \<le> m_halfSize g" "- m_halfSize g \<le> vz p" "vz p \<le> m_halfSize g"
    by (simp_all add: latticeEdge0_def)
  have "inLattice g (vx p) (vy p) (vz p)"
    unfolding inLattice_def using r by linarith
  then have v: "isVertexInGrid g (vx p) (vy p) (vz p)" by (rule inLattice_accepted [OF inv])
  have c0: "isCellInGrid g \<lparr>vx = vx p, vy = vy p - 1, vz = vz p - 1\<rparr>
              \<longleftrightarrow> vy p \<noteq> - m_halfSize g \<and> vz p \<noteq> - m_halfSize g"
    and c1: "isCellInGrid g \<lparr>vx = vx p, vy = vy p, vz = vz p - 1\<rparr>
              \<longleftrightarrow> vy p \<noteq> m_halfSize g \<and> vz p \<noteq> - m_halfSize g"
    and c2: "isCellInGrid g \<lparr>vx = vx p, vy = vy p, vz = vz p\<rparr>
              \<longleftrightarrow> vy p \<noteq> m_halfSize g \<and> vz p \<noteq> m_halfSize g"
    and c3: "isCellInGrid g \<lparr>vx = vx p, vy = vy p - 1, vz = vz p\<rparr>
              \<longleftrightarrow> vy p \<noteq> - m_halfSize g \<and> vz p \<noteq> m_halfSize g"
    using r by (auto simp: isCellInGrid_iff)
  have i2: "rawIndex g p = rawIndex g \<lparr>vx = vx p, vy = vy p, vz = vz p\<rparr>"
    by (simp add: rawIndex_def)
  show ?thesis
    unfolding adjacentCellsForEdge0_def pointToIndex_v_raw [OF v] edgeCells0_def
      sentinelOrIndex_def Let_def sum.case list.map c0 c1 c2 c3
    using hp by (auto simp: i2 rawIndex_pred_x rawIndex_pred_y rawIndex_pred_z)
qed

lemma isEdgeInGrid1_negatable:
  assumes "negatable (vx p)" "negatable (vz p)"
  shows "isEdgeInGrid1 g p \<longleftrightarrow> latticeEdge1 g p"
  using assms by (auto simp: isEdgeInGrid1_def latticeEdge1_def glm_abs_negatable)

lemma latticeEdge1_accepted:
  assumes "grid_inv g" and "latticeEdge1 g p"
  shows "isEdgeInGrid1 g p"
proof -
  from assms(2) have "inLattice g (vx p) (vy p) (vz p)"
    by (simp add: latticeEdge1_def inLattice_def)
  from inLattice_negatable [OF assms(1) this] assms(2) show ?thesis
    by (simp add: isEdgeInGrid1_negatable)
qed

lemma isEdgeInGrid2_negatable:
  assumes "negatable (vx p)" "negatable (vy p)"
  shows "isEdgeInGrid2 g p \<longleftrightarrow> latticeEdge2 g p"
  using assms by (auto simp: isEdgeInGrid2_def latticeEdge2_def glm_abs_negatable)

lemma latticeEdge2_accepted:
  assumes "grid_inv g" and "latticeEdge2 g p"
  shows "isEdgeInGrid2 g p"
proof -
  from assms(2) have "inLattice g (vx p) (vy p) (vz p)"
    by (simp add: latticeEdge2_def inLattice_def)
  from inLattice_negatable [OF assms(1) this] assms(2) show ?thesis
    by (simp add: isEdgeInGrid2_negatable)
qed

lemma adjacentCellsForEdge1_explicit:
  assumes inv: "grid_inv g" and e: "latticeEdge1 g p"
  shows "adjacentCellsForEdge1 kBadIndex g p = Inr (map (sentinelOrIndex kBadIndex g) (edgeCells1 p))"
proof -
  note hp = grid_inv_half_pos [OF inv]
  from e have r: "- m_halfSize g \<le> vx p" "vx p \<le> m_halfSize g" "- m_halfSize g \<le> vy p"
    "vy p < m_halfSize g" "- m_halfSize g \<le> vz p" "vz p \<le> m_halfSize g"
    by (simp_all add: latticeEdge1_def)
  have "inLattice g (vx p) (vy p) (vz p)"
    unfolding inLattice_def using r by linarith
  then have v: "isVertexInGrid g (vx p) (vy p) (vz p)" by (rule inLattice_accepted [OF inv])
  have c0: "isCellInGrid g \<lparr>vx = vx p - 1, vy = vy p, vz = vz p - 1\<rparr>
              \<longleftrightarrow> vx p \<noteq> - m_halfSize g \<and> vz p \<noteq> - m_halfSize g"
    and c1: "isCellInGrid g \<lparr>vx = vx p - 1, vy = vy p, vz = vz p\<rparr>
              \<longleftrightarrow> vx p \<noteq> - m_halfSize g \<and> vz p \<noteq> m_halfSize g"
    and c2: "isCellInGrid g \<lparr>vx = vx p, vy = vy p, vz = vz p\<rparr>
              \<longleftrightarrow> vx p \<noteq> m_halfSize g \<and> vz p \<noteq> m_halfSize g"
    and c3: "isCellInGrid g \<lparr>vx = vx p, vy = vy p, vz = vz p - 1\<rparr>
              \<longleftrightarrow> vx p \<noteq> m_halfSize g \<and> vz p \<noteq> - m_halfSize g"
    using r by (auto simp: isCellInGrid_iff)
  have i2: "rawIndex g p = rawIndex g \<lparr>vx = vx p, vy = vy p, vz = vz p\<rparr>"
    by (simp add: rawIndex_def)
  show ?thesis
    unfolding adjacentCellsForEdge1_def pointToIndex_v_raw [OF v] edgeCells1_def
      sentinelOrIndex_def Let_def sum.case list.map c0 c1 c2 c3
    using hp by (auto simp: i2 rawIndex_pred_x rawIndex_pred_y rawIndex_pred_z)
qed

lemma adjacentCellsForEdge2_explicit:
  assumes inv: "grid_inv g" and e: "latticeEdge2 g p"
  shows "adjacentCellsForEdge2 kBadIndex g p = Inr (map (sentinelOrIndex kBadIndex g) (edgeCells2 p))"
proof -
  note hp = grid_inv_half_pos [OF inv]
  from e have r: "- m_halfSize g \<le> vx p" "vx p \<le> m_halfSize g" "- m_halfSize g \<le> vy p"
    "vy p \<le> m_halfSize g" "- m_halfSize g \<le> vz p" "vz p < m_halfSize g"
    by (simp_all add: latticeEdge2_def)
  have "inLattice g (vx p) (vy p) (vz p)"
    unfolding inLattice_def using r by linarith
  then have v: "isVertexInGrid g (vx p) (vy p) (vz p)" by (rule inLattice_accepted [OF inv])
  have c0: "isCellInGrid g \<lparr>vx = vx p - 1, vy = vy p - 1, vz = vz p\<rparr>
              \<longleftrightarrow> vx p \<noteq> - m_halfSize g \<and> vy p \<noteq> - m_halfSize g"
    and c1: "isCellInGrid g \<lparr>vx = vx p, vy = vy p - 1, vz = vz p\<rparr>
              \<longleftrightarrow> vx p \<noteq> m_halfSize g \<and> vy p \<noteq> - m_halfSize g"
    and c2: "isCellInGrid g \<lparr>vx = vx p, vy = vy p, vz = vz p\<rparr>
              \<longleftrightarrow> vx p \<noteq> m_halfSize g \<and> vy p \<noteq> m_halfSize g"
    and c3: "isCellInGrid g \<lparr>vx = vx p - 1, vy = vy p, vz = vz p\<rparr>
              \<longleftrightarrow> vx p \<noteq> - m_halfSize g \<and> vy p \<noteq> m_halfSize g"
    using r by (auto simp: isCellInGrid_iff)
  have i2: "rawIndex g p = rawIndex g \<lparr>vx = vx p, vy = vy p, vz = vz p\<rparr>"
    by (simp add: rawIndex_def)
  show ?thesis
    unfolding adjacentCellsForEdge2_def pointToIndex_v_raw [OF v] edgeCells2_def
      sentinelOrIndex_def Let_def sum.case list.map c0 c1 c2 c3
    using hp by (auto simp: i2 rawIndex_pred_x rawIndex_pred_y rawIndex_pred_z)
qed

lemma sentinelOrIndex_entry:
  assumes inv: "grid_inv g" and kb: "vertexCount g \<le> unat kBadIndex" and b: "isCellInGrid g c \<Longrightarrow> onBoundary"
  shows "adjacentEntry kBadIndex g onBoundary c (sentinelOrIndex kBadIndex g c)"
proof (cases "isCellInGrid g c")
  case False
  then show ?thesis by (simp add: adjacentEntry_def sentinelOrIndex_def)
next
  case True
  then have "c \<in> latticePoints g"
    by (auto simp: isCellInGrid_iff latticePoints_def)
  from vertexIndex_props [OF inv this] obtain i where
    i: "pointToIndex_v g c = Inr i" and lt: "unat i < vertexCount g" by blast
  from \<open>c \<in> latticePoints g\<close> have "inLattice g (vx c) (vy c) (vz c)"
    by (simp only: latticePoints_iff)
  from pointToIndex_v_raw [OF inLattice_accepted [OF inv this]] i have e: "rawIndex g c = i" by simp
  from lt kb have "i \<noteq> kBadIndex" by auto
  with True i e b show ?thesis by (simp add: adjacentEntry_def sentinelOrIndex_def)
qed

lemma edgeCells_boundary:
  "c \<in> set (edgeCells0 p) \<longleftrightarrow> cellHasEdge0 c p"
  "c \<in> set (edgeCells1 p) \<longleftrightarrow> cellHasEdge1 c p"
  "c \<in> set (edgeCells2 p) \<longleftrightarrow> cellHasEdge2 c p"
  by (cases c; cases p; auto simp: edgeCells0_def edgeCells1_def edgeCells2_def
        cellHasEdge0_def cellHasEdge1_def cellHasEdge2_def)+

lemma adjacent_entries_map:
  assumes inv: "grid_inv g" and kb: "vertexCount g \<le> unat kBadIndex"
    and b: "\<And>c. c \<in> set cs \<Longrightarrow> onBoundary c"
  shows "list_all2 (\<lambda>c w. adjacentEntry kBadIndex g (onBoundary c) c w) cs
           (map (sentinelOrIndex kBadIndex g) cs)"
  unfolding list_all2_map2 list_all2_same
  using sentinelOrIndex_entry [OF inv kb] b by blast

text \<open>
  For every edge position whose coordinates differ from the most negative \<open>int32_t\<close>,
  \<open>isEdgeInGrid\<close> accepts exactly the lattice edges, and for an accepted position
  \<open>adjacentCellsForEdge\<close> returns four entries, one for each of the four cells that have
  the edge on their boundary; an entry is the sentinel \<open>kBadIndex\<close> exactly when its cell
  is outside the grid, and otherwise it is \<open>pointToIndex\<close> of the cell's minimal corner.
  The sentinel is taken to be no index of a lattice vertex.
\<close>

lemma adjacentCellsForEdge_negatable:
  assumes inv: "grid_inv g" and kb: "vertexCount g \<le> unat kBadIndex"
    and n: "negatable (vx p)" "negatable (vy p)" "negatable (vz p)"
  shows "(isEdgeInGrid0 g p \<longrightarrow>
            (\<exists>cells. adjacentCellsForEdge0 kBadIndex g p = Inr cells \<and> length cells = 4 \<and>
               list_all2 (\<lambda>c w. adjacentEntry kBadIndex g (cellHasEdge0 c p) c w)
                 (edgeCells0 p) cells)) \<and>
         (isEdgeInGrid1 g p \<longrightarrow>
            (\<exists>cells. adjacentCellsForEdge1 kBadIndex g p = Inr cells \<and> length cells = 4 \<and>
               list_all2 (\<lambda>c w. adjacentEntry kBadIndex g (cellHasEdge1 c p) c w)
                 (edgeCells1 p) cells)) \<and>
         (isEdgeInGrid2 g p \<longrightarrow>
            (\<exists>cells. adjacentCellsForEdge2 kBadIndex g p = Inr cells \<and> length cells = 4 \<and>
               list_all2 (\<lambda>c w. adjacentEntry kBadIndex g (cellHasEdge2 c p) c w)
                 (edgeCells2 p) cells)) \<and>
         set (edgeCells0 p) = {c. cellHasEdge0 c p} \<and>
         set (edgeCells1 p) = {c. cellHasEdge1 c p} \<and>
         set (edgeCells2 p) = {c. cellHasEdge2 c p}"
proof (intro conjI impI)
  assume "isEdgeInGrid0 g p"
  then have e: "latticeEdge0 g p" by (simp only: isEdgeInGrid0_negatable [OF n(2,3)])
  have "list_all2 (\<lambda>c w. adjacentEntry kBadIndex g (cellHasEdge0 c p) c w) (edgeCells0 p)
          (map (sentinelOrIndex kBadIndex g) (edgeCells0 p))"
    by (rule adjacent_entries_map [OF inv kb]) (simp only: edgeCells_boundary)
  moreover have "length (map (sentinelOrIndex kBadIndex g) (edgeCells0 p)) = 4"
    by (simp add: edgeCells0_def)
  ultimately show "\<exists>cells. adjacentCellsForEdge0 kBadIndex g p = Inr cells \<and> length cells = 4 \<and>
               list_all2 (\<lambda>c w. adjacentEntry kBadIndex g (cellHasEdge0 c p) c w)
                 (edgeCells0 p) cells"
    using adjacentCellsForEdge0_explicit [OF inv e] by blast
next
  assume "isEdgeInGrid1 g p"
  then have e: "latticeEdge1 g p" by (simp only: isEdgeInGrid1_negatable [OF n(1,3)])
  have "list_all2 (\<lambda>c w. adjacentEntry kBadIndex g (cellHasEdge1 c p) c w) (edgeCells1 p)
          (map (sentinelOrIndex kBadIndex g) (edgeCells1 p))"
    by (rule adjacent_entries_map [OF inv kb]) (simp only: edgeCells_boundary)
  moreover have "length (map (sentinelOrIndex kBadIndex g) (edgeCells1 p)) = 4"
    by (simp add: edgeCells1_def)
  ultimately show "\<exists>cells. adjacentCellsForEdge1 kBadIndex g p = Inr cells \<and> length cells = 4 \<and>
               list_all2 (\<lambda>c w. adjacentEntry kBadIndex g (cellHasEdge1 c p) c w)
                 (edgeCells1 p) cells"
    using adjacentCellsForEdge1_explicit [OF inv e] by blast
next
  assume "isEdgeInGrid2 g p"
  then have e: "latticeEdge2 g p" by (simp only: isEdgeInGrid2_negatable [OF n(1,2)])
  have "list_all2 (\<lambda>c w. adjacentEntry kBadIndex g (cellHasEdge2 c p) c w) (edgeCells2 p)
          (map (sentinelOrIndex kBadIndex g) (edgeCells2 p))"
    by (rule adjacent_entries_map [OF inv kb]) (simp only: edgeCells_boundary)
  moreover have "length (map (sentinelOrIndex kBadIndex g) (edgeCells2 p)) = 4"
    by (simp add: edgeCells2_def)
  ultimately show "\<exists>cells. adjacentCellsForEdge2 kBadIndex g p = Inr cells \<and> length cells = 4 \<and>
               list_all2 (\<lambda>c w. adjacentEntry kBadIndex g (cellHasEdge2 c p) c w)
                 (edgeCells2 p) cells"
    using adjacentCellsForEdge2_explicit [OF inv e] by blast
qed (auto simp: edgeCells_boundary)

text \<open>
  Claim C8. For every edge position accepted by \<open>isEdgeInGrid\<close>, an entry of
  \<open>adjacentCellsForEdge\<close> should be the sentinel exactly when its cell is outside the
  grid, and otherwise the index of an in-grid cell. The code misses one case: \<open>glm::abs\<close>
  of the most negative \<open>int32_t\<close> is negative, so on the grid of size 2 the position
  \<open>(0, -2\<^sup>3\<^sup>1, 0)\<close> passes \<open>isEdgeInGrid<0>\<close> and the assertion of \<open>pointToIndex\<close>; none
  of the four cells around it is in the grid, and yet, whatever the sentinel is, the four
  entries returned are four different numbers beyond the 27 vertex indices, so they are
  neither all the sentinel nor indices of in-grid cells.
\<close>

theorem adjacentCellsForEdge_most_negative:
  "grid_inv grid2 \<and> vertexCount grid2 = 27 \<and>
   isEdgeInGrid0 grid2 \<lparr>vx = 0, vy = - 2147483648, vz = 0\<rparr> \<and>
   adjacentCellsForEdge0 kBadIndex grid2 \<lparr>vx = 0, vy = - 2147483648, vz = 0\<rparr>
     = Inr [2147483651, 2147483660, 2147483661, 2147483652] \<and>
   list_all (\<lambda>c. \<not> isCellInGrid grid2 c) (edgeCells0 \<lparr>vx = 0, vy = - 2147483648, vz = 0\<rparr>) \<and>
   \<not> list_all2
       (\<lambda>c w. adjacentEntry kBadIndex grid2 (cellHasEdge0 c \<lparr>vx = 0, vy = - 2147483648, vz = 0\<rparr>) c w)
       (edgeCells0 \<lparr>vx = 0, vy = - 2147483648, vz = 0\<rparr>)
       [2147483651, 2147483660, 2147483661, 2147483652]"
proof -
  have c: "vertexCount grid2 = 27" by (simp add: vertexCount_def grid2_def)
  have e: "isEdgeInGrid0 grid2 \<lparr>vx = 0, vy = - 2147483648, vz = 0\<rparr>"
    by (simp add: isEdgeInGrid0_def glm_abs_min) (simp add: glm_abs_def grid2_def)
  have v: "isVertexInGrid grid2 0 (- 2147483648) 0"
    by (simp add: isVertexInGrid_def glm_abs_min) (simp add: glm_abs_def grid2_def)
  have p: "pointToIndex grid2 0 (- 2147483648) 0 = Inr 2147483661"
    using v by (simp add: pointToIndex_def uint32_t_def grid2_def)
  have a: "adjacentCellsForEdge0 kBadIndex grid2 \<lparr>vx = 0, vy = - 2147483648, vz = 0\<rparr>
     = Inr [2147483651, 2147483660, 2147483661, 2147483652]"
    by (simp add: adjacentCellsForEdge0_def pointToIndex_v_def p) (simp add: grid2_def)
  have o: "list_all (\<lambda>c. \<not> isCellInGrid grid2 c) (edgeCells0 \<lparr>vx = 0, vy = - 2147483648, vz = 0\<rparr>)"
    by (simp add: edgeCells0_def isCellInGrid_def grid2_def)
  have n: "\<not> list_all2
       (\<lambda>c w. adjacentEntry kBadIndex grid2 (cellHasEdge0 c \<lparr>vx = 0, vy = - 2147483648, vz = 0\<rparr>) c w)
       (edgeCells0 \<lparr>vx = 0, vy = - 2147483648, vz = 0\<rparr>)
       [2147483651, 2147483660, 2147483661, 2147483652]"
    by (auto simp: edgeCells0_def adjacentEntry_def isCellInGrid_def grid2_def)
  from grid2_inv c e a o n show ?thesis by simp
qed

section \<open>Loops\<close>

lemma for_each_range:
  assumes step: "\<And>x s. lo \<le> x \<Longrightarrow> x \<le> hi \<Longrightarrow> P x s \<Longrightarrow> \<exists>s'. body x s = Inr s' \<and> P (x + 1) s'"
    and init: "P lo s" and le: "lo \<le> hi + 1"
  shows "\<exists>s'. for_each [lo..hi] body s = Inr s' \<and> P (hi + 1) s'"
  using init le step
proof (induction "nat (hi + 1 - lo)" arbitrary: lo s)
  case 0
  then have "lo = hi + 1" by simp
  with "0.prems"(1) show ?case by simp
next
  case (Suc n)
  then have lt: "lo \<le> hi" by linarith
  from Suc.prems(3) [OF order_refl lt Suc.prems(1)] obtain s1 where
    s1: "body lo s = Inr s1" "P (lo + 1) s1" by blast
  have n: "n = nat (hi + 1 - (lo + 1))" using Suc.hyps(2) by linarith
  have "\<exists>s'. for_each [lo + 1..hi] body s1 = Inr s' \<and> P (hi + 1) s'"
  proof (rule Suc.hyps(1) [OF n s1(2)])
    show "lo + 1 \<le> hi + 1" using lt by simp
    fix x s assume "lo + 1 \<le> x" "x \<le> hi" "P x s"
    then show "\<exists>s'. body x s = Inr s' \<and> P (x + 1) s'"
      using Suc.prems(3) [of x s] by simp
  qed
  then show ?case using s1(1) lt by (simp add: upto_rec1)
qed

lemma upto_snoc: "lo \<le> x \<Longrightarrow> [lo..x] = [lo..x - 1] @ [x]" for lo x :: int
  by (simp add: upto_rec2)

section \<open>The running indices of \<open>fill\<close>\<close>

lemma rawIndex_succ_z:
  "rawIndex g \<lparr>vx = a, vy = b, vz = c\<rparr> + 1 = rawIndex g \<lparr>vx = a, vy = b, vz = c + 1\<rparr>"
  by (simp add: rawIndex_def uint32_t_def algebra_simps)

lemma rawIndex_succ_x:
  "rawIndex g \<lparr>vx = a, vy = b, vz = c\<rparr> + (m_size g + 1) = rawIndex g \<lparr>vx = a + 1, vy = b, vz = c\<rparr>"
  by (simp add: rawIndex_def uint32_t_def algebra_simps)

lemma rawIndex_succ_y:
  "rawIndex g \<lparr>vx = a, vy = b, vz = c\<rparr> + (m_size g + 1) * (m_size g + 1)
     = rawIndex g \<lparr>vx = a, vy = b + 1, vz = c\<rparr>"
  by (simp add: rawIndex_def uint32_t_def algebra_simps)

lemma grid_inv_size_word:
  assumes "grid_inv g"
  shows "m_size g + 1 = word_of_int (2 * m_halfSize g + 1)"
proof -
  have "word_of_int (2 * m_halfSize g + 1) = (word_of_int (int (unat (m_size g))) + 1 :: uint32)"
    by (simp only: grid_inv_half [OF assms] of_int_add of_int_1)
  also have "\<dots> = m_size g + 1" by simp
  finally show ?thesis by simp
qed

lemma half_word:
  assumes "grid_inv g"
  shows "word_of_int (m_halfSize g) * 2 = m_size g"
  using grid_inv_size_word [OF assms] by (simp add: algebra_simps)

lemma rawIndex_wrap_z:
  assumes "grid_inv g"
  shows "rawIndex g \<lparr>vx = a, vy = b, vz = m_halfSize g + 1\<rparr>
          = rawIndex g \<lparr>vx = a + 1, vy = b, vz = - m_halfSize g\<rparr>"
  by (simp add: rawIndex_def uint32_t_def half_word [OF assms] algebra_simps)

lemma rawIndex_wrap_x:
  assumes "grid_inv g"
  shows "rawIndex g \<lparr>vx = m_halfSize g + 1, vy = b, vz = - m_halfSize g\<rparr>
          = rawIndex g \<lparr>vx = - m_halfSize g, vy = b + 1, vz = - m_halfSize g\<rparr>"
  by (simp add: rawIndex_def uint32_t_def half_word [OF assms] algebra_simps)

lemma rawIndex_origin:
  "rawIndex g \<lparr>vx = - m_halfSize g, vy = - m_halfSize g, vz = - m_halfSize g\<rparr> = 0"
  by (simp add: rawIndex_def uint32_t_def)

lemma rawIndex_lattice:
  assumes inv: "grid_inv g" and p: "p \<in> latticePoints g"
  shows "unat (rawIndex g p) = vertexIndex g p" and "vertexIndex g p < vertexCount g"
proof -
  from p have v: "inLattice g (vx p) (vy p) (vz p)" by (simp only: latticePoints_iff)
  from vertexIndex_props [OF inv p] obtain i where
    i: "pointToIndex_v g p = Inr i" "vertexIndex g p = unat i" "unat i < vertexCount g" by blast
  from pointToIndex_v_raw [OF inLattice_accepted [OF inv v]] i(1) have "rawIndex g p = i" by simp
  with i show "unat (rawIndex g p) = vertexIndex g p" "vertexIndex g p < vertexCount g" by simp_all
qed

section \<open>The sampling loop nest\<close>

lemma word_succ_unat_big:
  fixes w :: uint32
  assumes "unat w \<le> 1076890624"
  shows "unat (w + 1) = unat w + 1"
proof -
  define S where "S = unat w"
  have e: "w = word_of_nat S" by (simp add: S_def)
  have "w + 1 = (word_of_nat (S + 1) :: uint32)"
    by (simp add: e)
  moreover have "S + 1 \<le> 1076890625"
    using assms by (simp add: S_def)
  ultimately have "unat (w + 1) = S + 1"
    by (simp only: unat_of_nat_small)
  then show ?thesis by (simp only: S_def)
qed

lemma vertexCount_le:
  assumes "grid_inv g"
  shows "vertexCount g \<le> 1076890625"
  unfolding vertexCount_def using cube_le_bound [OF grid_inv_size(2) [OF assms]] .

lemma fill_vertex_step:
  fixes f :: "'d::{plus,zero,ord} ScalarField"
  assumes inv: "grid_inv g" and p: "p \<in> latticePoints g"
    and d: "vertices_done f g lowest s"
    and i: "fs_idx s = rawIndex g p" and c: "fs_call_pos s = samplePoint g lowest p"
  shows "\<exists>s'. fill_vertex f (m_gridStep g) s = Inr s' \<and> vertices_done f g lowest s' \<and>
              fs_idx s' = rawIndex g p + 1 \<and>
              fs_call_pos s' = (samplePoint g lowest p)\<lparr>vz := vz (samplePoint g lowest p) + m_gridStep g\<rparr>"
proof -
  note ri = rawIndex_lattice [OF inv p]
  define k where "k = vertexIndex g p"
  have ui: "unat (fs_idx s) = k" using ri(1) by (simp only: i k_def)
  have kN: "k < vertexCount g" using ri(2) by (simp only: k_def)
  from d have len: "length (fs_values s) = vertexCount g" "length (fs_mat s) = vertexCount g"
    and old: "\<And>q. q \<in> latticePoints g \<Longrightarrow> vertexIndex g q < k \<Longrightarrow>
        fs_values s ! vertexIndex g q = sampleValue f g lowest q \<and>
        fs_mat s ! vertexIndex g q = sampleMaterial f g lowest q"
    and calls: "\<forall>c \<in> set (fs_material_calls s). \<not> snd c > 0 \<and> snd c = field_value f (fst c)"
    unfolding vertices_done_def ui by blast+
  define v where "v = field_value f (samplePoint g lowest p)"
  define m where "m = (if v > 0 then Empty else field_material f (samplePoint g lowest p) v)"
  define s' where "s' = s\<lparr>fs_values := (fs_values s)[k := v], fs_mat := (fs_mat s)[k := m],
      fs_material_calls := (if v > 0 then fs_material_calls s
                            else fs_material_calls s @ [(samplePoint g lowest p, v)]),
      fs_idx := fs_idx s + 1,
      fs_call_pos := (samplePoint g lowest p)\<lparr>vz := vz (samplePoint g lowest p) + m_gridStep g\<rparr>\<rparr>"
  have run: "fill_vertex f (m_gridStep g) s = Inr s'"
    using kN len by (simp add: fill_vertex_def Let_def ui c s'_def v_def m_def)
  have "k \<le> 1076890624" using kN vertexCount_le [OF inv] by linarith
  then have "unat (fs_idx s + 1) = k + 1"
    using word_succ_unat_big [of "fs_idx s"] by (simp only: ui)
  then have ui': "unat (fs_idx s') = k + 1" by (simp add: s'_def)
  have new: "fs_values s' ! vertexIndex g q = sampleValue f g lowest q \<and>
        fs_mat s' ! vertexIndex g q = sampleMaterial f g lowest q"
    if q: "q \<in> latticePoints g" and lt: "vertexIndex g q < k + 1" for q
  proof (cases "vertexIndex g q = k")
    case True
    then have "vertexIndex g q = vertexIndex g p" by (simp only: k_def)
    with vertexIndex_inj [OF inv] q p have "q = p" by (auto dest: inj_onD)
    then show ?thesis
      using kN len by (simp add: s'_def k_def [symmetric] sampleValue_def sampleMaterial_def v_def m_def)
  next
    case False
    with lt have "vertexIndex g q < k" by simp
    from old [OF q this] False show ?thesis by (simp add: s'_def)
  qed
  have calls': "\<forall>c \<in> set (fs_material_calls s'). \<not> snd c > 0 \<and> snd c = field_value f (fst c)"
    using calls by (auto simp: s'_def v_def)
  have l': "length (fs_values s') = vertexCount g" "length (fs_mat s') = vertexCount g"
    using len by (simp_all add: s'_def)
  have "vertices_done f g lowest s'"
    unfolding vertices_done_def ui' using l' new calls' by blast
  moreover have "fs_idx s' = rawIndex g p + 1" by (simp add: s'_def i)
  moreover have "fs_call_pos s' =
      (samplePoint g lowest p)\<lparr>vz := vz (samplePoint g lowest p) + m_gridStep g\<rparr>"
    by (simp add: s'_def)
  ultimately show ?thesis using run by blast
qed

lemma advance_zero: "advance gridStep 0 c = c"
  by (simp add: advance_def)

lemma advance_succ:
  assumes "0 \<le> k"
  shows "advance gridStep (k + 1) c = advance gridStep k c + gridStep"
proof -
  have "nat (k + 1) = Suc (nat k)" using assms by simp
  then show ?thesis by (simp add: advance_def)
qed

lemma fill_vertices_z_run:
  fixes f :: "'d::{plus,zero,ord} ScalarField"
  assumes inv: "grid_inv g"
    and x: "- m_halfSize g \<le> x" "x \<le> m_halfSize g"
    and y: "- m_halfSize g \<le> y" "y \<le> m_halfSize g"
    and d: "vertices_done f g lowest s"
    and i: "fs_idx s = rawIndex g \<lparr>vx = x, vy = y, vz = - m_halfSize g\<rparr>"
    and c: "fs_call_pos s = samplePoint g lowest \<lparr>vx = x, vy = y, vz = - m_halfSize g\<rparr>"
  shows "\<exists>s'. fill_vertices_z f g s = Inr s' \<and> vertices_done f g lowest s' \<and>
              fs_idx s' = rawIndex g \<lparr>vx = x, vy = y, vz = m_halfSize g + 1\<rparr> \<and>
              fs_call_pos s' = samplePoint g lowest \<lparr>vx = x, vy = y, vz = m_halfSize g + 1\<rparr>"
proof -
  let ?P = "\<lambda>z s. vertices_done f g lowest s \<and> fs_idx s = rawIndex g \<lparr>vx = x, vy = y, vz = z\<rparr> \<and>
                  fs_call_pos s = samplePoint g lowest \<lparr>vx = x, vy = y, vz = z\<rparr>"
  note hp = grid_inv_half_pos [OF inv]
  have "\<exists>s'. for_each [- m_halfSize g .. m_halfSize g] (\<lambda>z s. fill_vertex f (m_gridStep g) s) s = Inr s'
            \<and> ?P (m_halfSize g + 1) s'"
  proof (rule for_each_range [where P = ?P])
    show "?P (- m_halfSize g) s" using d i c by simp
    show "- m_halfSize g \<le> m_halfSize g + 1" using hp by simp
    fix z s assume z: "- m_halfSize g \<le> z" "z \<le> m_halfSize g" and P: "?P z s"
    have p: "\<lparr>vx = x, vy = y, vz = z\<rparr> \<in> latticePoints g"
      using x y z by (simp add: latticePoints_def)
    from P have P1: "vertices_done f g lowest s" and P2: "fs_idx s = rawIndex g \<lparr>vx = x, vy = y, vz = z\<rparr>"
      and P3: "fs_call_pos s = samplePoint g lowest \<lparr>vx = x, vy = y, vz = z\<rparr>" by blast+
    from fill_vertex_step [OF inv p P1 P2 P3] obtain s' where
      s': "fill_vertex f (m_gridStep g) s = Inr s'" "vertices_done f g lowest s'"
      "fs_idx s' = rawIndex g \<lparr>vx = x, vy = y, vz = z\<rparr> + 1"
      "fs_call_pos s' = (samplePoint g lowest \<lparr>vx = x, vy = y, vz = z\<rparr>)
          \<lparr>vz := vz (samplePoint g lowest \<lparr>vx = x, vy = y, vz = z\<rparr>) + m_gridStep g\<rparr>"
      by blast
    have "0 \<le> z + m_halfSize g" using z by simp
    from advance_succ [OF this, of "m_gridStep g" "vz lowest"]
    have a: "advance (m_gridStep g) (z + 1 + m_halfSize g) (vz lowest)
             = advance (m_gridStep g) (z + m_halfSize g) (vz lowest) + m_gridStep g"
      by (simp only: add.commute add.left_commute)
    have "fs_call_pos s' = samplePoint g lowest \<lparr>vx = x, vy = y, vz = z + 1\<rparr>"
      unfolding s'(4) by (simp add: samplePoint_def a)
    with s'(1,2,3) show "\<exists>s'. fill_vertex f (m_gridStep g) s = Inr s' \<and> ?P (z + 1) s'"
      by (simp add: rawIndex_succ_z)
  qed
  then show ?thesis by (simp only: fill_vertices_z_def)
qed

lemma vec3_eqI:
  fixes a b :: "'a vec3"
  assumes "vx a = vx b" "vy a = vy b" "vz a = vz b"
  shows "a = b"
  using assms by (cases a, cases b) simp

lemma vertices_done_call_pos:
  "vertices_done f g lowest (s\<lparr>fs_call_pos := c\<rparr>) = vertices_done f g lowest s"
  unfolding vertices_done_def by simp

lemma fill_vertices_x_run:
  fixes f :: "'d::{plus,zero,ord} ScalarField"
  assumes inv: "grid_inv g"
    and y: "- m_halfSize g \<le> y" "y \<le> m_halfSize g"
    and d: "vertices_done f g lowest s"
    and i: "fs_idx s = rawIndex g \<lparr>vx = - m_halfSize g, vy = y, vz = - m_halfSize g\<rparr>"
    and cx: "vx (fs_call_pos s) = vx lowest"
    and cy: "vy (fs_call_pos s) = advance (m_gridStep g) (y + m_halfSize g) (vy lowest)"
  shows "\<exists>s'. fill_vertices_x f g lowest s = Inr s' \<and> vertices_done f g lowest s' \<and>
              fs_idx s' = rawIndex g \<lparr>vx = - m_halfSize g, vy = y + 1, vz = - m_halfSize g\<rparr> \<and>
              vy (fs_call_pos s') = advance (m_gridStep g) (y + m_halfSize g) (vy lowest)"
proof -
  let ?P = "\<lambda>x s. vertices_done f g lowest s \<and>
                  fs_idx s = rawIndex g \<lparr>vx = x, vy = y, vz = - m_halfSize g\<rparr> \<and>
                  vx (fs_call_pos s) = advance (m_gridStep g) (x + m_halfSize g) (vx lowest) \<and>
                  vy (fs_call_pos s) = advance (m_gridStep g) (y + m_halfSize g) (vy lowest)"
  let ?body = "\<lambda>x s. case fill_vertices_z f g (s\<lparr>fs_call_pos := (fs_call_pos s)\<lparr>vz := vz lowest\<rparr>\<rparr>) of
                 Inl e \<Rightarrow> Inl e
               | Inr s \<Rightarrow> Inr (s\<lparr>fs_call_pos :=
                                   (fs_call_pos s)\<lparr>vx := vx (fs_call_pos s) + m_gridStep g\<rparr>\<rparr>)"
  note hp = grid_inv_half_pos [OF inv]
  have "\<exists>s'. for_each [- m_halfSize g .. m_halfSize g] ?body s = Inr s' \<and> ?P (m_halfSize g + 1) s'"
  proof (rule for_each_range [where P = ?P])
    show "?P (- m_halfSize g) s" using d i cx cy by (simp add: advance_zero)
    show "- m_halfSize g \<le> m_halfSize g + 1" using hp by simp
    fix x s assume x: "- m_halfSize g \<le> x" "x \<le> m_halfSize g" and P: "?P x s"
    define s0 where "s0 = s\<lparr>fs_call_pos := (fs_call_pos s)\<lparr>vz := vz lowest\<rparr>\<rparr>"
    from P have d0: "vertices_done f g lowest s0"
      by (simp only: s0_def vertices_done_call_pos)
    from P have i0: "fs_idx s0 = rawIndex g \<lparr>vx = x, vy = y, vz = - m_halfSize g\<rparr>"
      by (simp add: s0_def)
    have c0: "fs_call_pos s0 = samplePoint g lowest \<lparr>vx = x, vy = y, vz = - m_halfSize g\<rparr>"
      using P by (intro vec3_eqI) (simp_all add: s0_def samplePoint_def advance_zero)
    from fill_vertices_z_run [OF inv x y d0 i0 c0] obtain s1 where
      s1: "fill_vertices_z f g s0 = Inr s1" "vertices_done f g lowest s1"
      "fs_idx s1 = rawIndex g \<lparr>vx = x, vy = y, vz = m_halfSize g + 1\<rparr>"
      "fs_call_pos s1 = samplePoint g lowest \<lparr>vx = x, vy = y, vz = m_halfSize g + 1\<rparr>"
      by blast
    define s2 where "s2 = s1\<lparr>fs_call_pos := (fs_call_pos s1)\<lparr>vx := vx (fs_call_pos s1) + m_gridStep g\<rparr>\<rparr>"
    have run: "?body x s = Inr s2" using s1(1) by (simp add: s0_def s2_def)
    have d2: "vertices_done f g lowest s2" using s1(2) by (simp only: s2_def vertices_done_call_pos)
    have i2: "fs_idx s2 = rawIndex g \<lparr>vx = x + 1, vy = y, vz = - m_halfSize g\<rparr>"
      using s1(3) by (simp add: s2_def rawIndex_wrap_z [OF inv])
    have "0 \<le> x + m_halfSize g" using x by simp
    from advance_succ [OF this, of "m_gridStep g" "vx lowest"]
    have a: "advance (m_gridStep g) (x + 1 + m_halfSize g) (vx lowest)
             = advance (m_gridStep g) (x + m_halfSize g) (vx lowest) + m_gridStep g"
      by (simp only: add.commute add.left_commute)
    have c2: "vx (fs_call_pos s2) = advance (m_gridStep g) (x + 1 + m_halfSize g) (vx lowest)"
      "vy (fs_call_pos s2) = advance (m_gridStep g) (y + m_halfSize g) (vy lowest)"
      by (simp_all add: s2_def s1(4) samplePoint_def a)
    from run d2 i2 c2 show "\<exists>s'. ?body x s = Inr s' \<and> ?P (x + 1) s'" by blast
  qed
  then obtain s' where "for_each [- m_halfSize g .. m_halfSize g] ?body s = Inr s'"
    and "?P (m_halfSize g + 1) s'" by blast
  then show ?thesis
    unfolding fill_vertices_x_def rawIndex_wrap_x [OF inv] by blast
qed

lemma rawIndex_end:
  assumes inv: "grid_inv g"
  shows "unat (rawIndex g \<lparr>vx = - m_halfSize g, vy = m_halfSize g + 1, vz = - m_halfSize g\<rparr>)
           = vertexCount g"
proof -
  have "rawIndex g \<lparr>vx = - m_halfSize g, vy = m_halfSize g + 1, vz = - m_halfSize g\<rparr>
          = (m_size g + 1) * (m_size g + 1) * (m_size g + 1)"
    by (simp add: rawIndex_def uint32_t_def half_word [OF inv] algebra_simps)
  then show ?thesis
    by (simp only: word_cube_unat [OF grid_inv_size(2) [OF inv]] vertexCount_def)
qed

lemma fill_vertices_run:
  fixes f :: "'d::{plus,zero,ord} ScalarField"
  assumes inv: "grid_inv g"
    and d: "vertices_done f g lowest s" and i: "fs_idx s = 0" and c: "fs_call_pos s = lowest"
  shows "\<exists>s'. fill_vertices f g lowest s = Inr s' \<and> vertices_done f g lowest s' \<and>
              unat (fs_idx s') = vertexCount g"
proof -
  let ?P = "\<lambda>y s. vertices_done f g lowest s \<and>
                  fs_idx s = rawIndex g \<lparr>vx = - m_halfSize g, vy = y, vz = - m_halfSize g\<rparr> \<and>
                  vy (fs_call_pos s) = advance (m_gridStep g) (y + m_halfSize g) (vy lowest)"
  let ?body = "\<lambda>y s. case fill_vertices_x f g lowest
                      (s\<lparr>fs_call_pos := (fs_call_pos s)\<lparr>vx := vx lowest\<rparr>\<rparr>) of
                 Inl e \<Rightarrow> Inl e
               | Inr s \<Rightarrow> Inr (s\<lparr>fs_call_pos :=
                                   (fs_call_pos s)\<lparr>vy := vy (fs_call_pos s) + m_gridStep g\<rparr>\<rparr>)"
  note hp = grid_inv_half_pos [OF inv]
  have "\<exists>s'. for_each [- m_halfSize g .. m_halfSize g] ?body s = Inr s' \<and> ?P (m_halfSize g + 1) s'"
  proof (rule for_each_range [where P = ?P])
    show "?P (- m_halfSize g) s" using d i c by (simp add: advance_zero rawIndex_origin)
    show "- m_halfSize g \<le> m_halfSize g + 1" using hp by simp
    fix y s assume y: "- m_halfSize g \<le> y" "y \<le> m_halfSize g" and P: "?P y s"
    define s0 where "s0 = s\<lparr>fs_call_pos := (fs_call_pos s)\<lparr>vx := vx lowest\<rparr>\<rparr>"
    from P have d0: "vertices_done f g lowest s0"
      by (simp only: s0_def vertices_done_call_pos)
    from P have i0: "fs_idx s0 = rawIndex g \<lparr>vx = - m_halfSize g, vy = y, vz = - m_halfSize g\<rparr>"
      by (simp add: s0_def)
    from P have c0: "vx (fs_call_pos s0) = vx lowest"
      "vy (fs_call_pos s0) = advance (m_gridStep g) (y + m_halfSize g) (vy lowest)"
      by (simp_all add: s0_def)
    from fill_vertices_x_run [OF inv y d0 i0 c0] obtain s1 where
      s1: "fill_vertices_x f g lowest s0 = Inr s1" "vertices_done f g lowest s1"
      "fs_idx s1 = rawIndex g \<lparr>vx = - m_halfSize g, vy = y + 1, vz = - m_halfSize g\<rparr>"
      "vy (fs_call_pos s1) = advance (m_gridStep g) (y + m_halfSize g) (vy lowest)"
      by blast
    define s2 where "s2 = s1\<lparr>fs_call_pos := (fs_call_pos s1)\<lparr>vy := vy (fs_call_pos s1) + m_gridStep g\<rparr>\<rparr>"
    have run: "?body y s = Inr s2" using s1(1) by (simp add: s0_def s2_def)
    have d2: "vertices_done f g lowest s2" using s1(2) by (simp only: s2_def vertices_done_call_pos)
    have i2: "fs_idx s2 = rawIndex g \<lparr>vx = - m_halfSize g, vy = y + 1, vz = - m_halfSize g\<rparr>"
      using s1(3) by (simp add: s2_def)
    have "0 \<le> y + m_halfSize g" using y by simp
    from advance_succ [OF this, of "m_gridStep g" "vy lowest"]
    have a: "advance (m_gridStep g) (y + 1 + m_halfSize g) (vy lowest)
             = advance (m_gridStep g) (y + m_halfSize g) (vy lowest) + m_gridStep g"
      by (simp only: add.commute add.left_commute)
    have c2: "vy (fs_call_pos s2) = advance (m_gridStep g) (y + 1 + m_halfSize g) (vy lowest)"
      by (simp add: s2_def s1(4) a)
    from run d2 i2 c2 show "\<exists>s'. ?body y s = Inr s' \<and> ?P (y + 1) s'" by blast
  qed
  then obtain s' where r: "for_each [- m_halfSize g .. m_halfSize g] ?body s = Inr s'"
    and P: "?P (m_halfSize g + 1) s'" by blast
  from P have "unat (fs_idx s') = vertexCount g" by (simp only: rawIndex_end [OF inv])
  with r P show ?thesis unfolding fill_vertices_def by blast
qed

lemma vertices_done_init:
  fixes f :: "'d::{plus,zero,ord} ScalarField"
  assumes inv: "grid_inv g"
  shows "vertices_done f g lowest
           \<lparr>fs_idx = 0, fs_call_pos = lowest, fs_values = replicate (unat (dataSize g)) 0,
            fs_mat = m_mat g, fs_material_calls = []\<rparr>"
proof -
  have "unat (dataSize g) = vertexCount g"
    by (simp only: dataSize_def word_cube_unat [OF grid_inv_size(2) [OF inv]] vertexCount_def)
  then show ?thesis
    by (simp add: vertices_done_def grid_inv_length [OF inv])
qed

section \<open>The edge loop nests\<close>

lemma fill_edgeX_step:
  fixes f :: "'d::{plus,minus,inverse,zero,ord} ScalarField"
  assumes inv: "grid_inv g" and sm: "sampled f g lowest values mat"
    and p: "\<lparr>vx = x, vy = y, vz = z\<rparr> \<in> latticePoints g"
    and q: "\<lparr>vx = x + 1, vy = y, vz = z\<rparr> \<in> latticePoints g"
    and i1: "es_idx1 s = rawIndex g \<lparr>vx = x, vy = y, vz = z\<rparr>"
    and i2: "es_idx2 s = rawIndex g \<lparr>vx = x + 1, vy = y, vz = z\<rparr>"
  shows "fill_edgeX localToGlobal to_double f solver (m_gridStep g) values mat x y z s =
           Inr (s\<lparr>es_edges := es_edges s @
                     edgesAt 0 localToGlobal to_double f solver g lowest \<lparr>vx = x, vy = y, vz = z\<rparr>,
                  es_idx1 := es_idx1 s + 1, es_idx2 := es_idx2 s + 1\<rparr>)"
proof -
  note rp = rawIndex_lattice [OF inv p] and rq = rawIndex_lattice [OF inv q]
  from sm have len: "length values = vertexCount g" "length mat = vertexCount g"
    and vp: "values ! vertexIndex g \<lparr>vx = x, vy = y, vz = z\<rparr>
               = sampleValue f g lowest \<lparr>vx = x, vy = y, vz = z\<rparr>"
       "mat ! vertexIndex g \<lparr>vx = x, vy = y, vz = z\<rparr>
               = sampleMaterial f g lowest \<lparr>vx = x, vy = y, vz = z\<rparr>"
    and vq: "values ! vertexIndex g \<lparr>vx = x + 1, vy = y, vz = z\<rparr>
               = sampleValue f g lowest \<lparr>vx = x + 1, vy = y, vz = z\<rparr>"
       "mat ! vertexIndex g \<lparr>vx = x + 1, vy = y, vz = z\<rparr>
               = sampleMaterial f g lowest \<lparr>vx = x + 1, vy = y, vz = z\<rparr>"
    using p q unfolding sampled_def by blast+
  have u: "unat (es_idx1 s) = vertexIndex g \<lparr>vx = x, vy = y, vz = z\<rparr>"
    "unat (es_idx2 s) = vertexIndex g \<lparr>vx = x + 1, vy = y, vz = z\<rparr>"
    by (simp_all only: i1 i2 rp rq)
  show ?thesis
    unfolding fill_edgeX_def u Let_def
    using rp(2) rq(2)
    by (simp add: len vp vq edgesAt_def edgeEntry_def edgeRoot_def isCrossing_def isInside_def
        upperEnd_def globalPoint_def coord_def setCoord_def findAlong_def)
qed

lemma fill_edgeY_step:
  fixes f :: "'d::{plus,minus,inverse,zero,ord} ScalarField"
  assumes inv: "grid_inv g" and sm: "sampled f g lowest values mat"
    and p: "\<lparr>vx = x, vy = y, vz = z\<rparr> \<in> latticePoints g"
    and q: "\<lparr>vx = x, vy = y + 1, vz = z\<rparr> \<in> latticePoints g"
    and i1: "es_idx1 s = rawIndex g \<lparr>vx = x, vy = y, vz = z\<rparr>"
    and i2: "es_idx2 s = rawIndex g \<lparr>vx = x, vy = y + 1, vz = z\<rparr>"
  shows "fill_edgeY localToGlobal to_double f solver (m_gridStep g) values mat x y z s =
           Inr (s\<lparr>es_edges := es_edges s @
                     edgesAt 1 localToGlobal to_double f solver g lowest \<lparr>vx = x, vy = y, vz = z\<rparr>,
                  es_idx1 := es_idx1 s + 1, es_idx2 := es_idx2 s + 1\<rparr>)"
proof -
  note rp = rawIndex_lattice [OF inv p] and rq = rawIndex_lattice [OF inv q]
  from sm have len: "length values = vertexCount g" "length mat = vertexCount g"
    and vp: "values ! vertexIndex g \<lparr>vx = x, vy = y, vz = z\<rparr>
               = sampleValue f g lowest \<lparr>vx = x, vy = y, vz = z\<rparr>"
       "mat ! vertexIndex g \<lparr>vx = x, vy = y, vz = z\<rparr>
               = sampleMaterial f g lowest \<lparr>vx = x, vy = y, vz = z\<rparr>"
    and vq: "values ! vertexIndex g \<lparr>vx = x, vy = y + 1, vz = z\<rparr>
               = sampleValue f g lowest \<lparr>vx = x, vy = y + 1, vz = z\<rparr>"
       "mat ! vertexIndex g \<lparr>vx = x, vy = y + 1, vz = z\<rparr>
               = sampleMaterial f g lowest \<lparr>vx = x, vy = y + 1, vz = z\<rparr>"
    using p q unfolding sampled_def by blast+
  have u: "unat (es_idx1 s) = vertexIndex g \<lparr>vx = x, vy = y, vz = z\<rparr>"
    "unat (es_idx2 s) = vertexIndex g \<lparr>vx = x, vy = y + 1, vz = z\<rparr>"
    by (simp_all only: i1 i2 rp rq)
  show ?thesis
    unfolding fill_edgeY_def u Let_def
    using rp(2) rq(2)
    by (simp add: len vp vq edgesAt_def edgeEntry_def edgeRoot_def isCrossing_def isInside_def
        upperEnd_def globalPoint_def coord_def setCoord_def findAlong_def)
qed

lemma fill_edgeZ_step:
  fixes f :: "'d::{plus,minus,inverse,zero,ord} ScalarField"
  assumes inv: "grid_inv g" and sm: "sampled f g lowest values mat"
    and p: "\<lparr>vx = x, vy = y, vz = z\<rparr> \<in> latticePoints g"
    and q: "\<lparr>vx = x, vy = y, vz = z + 1\<rparr> \<in> latticePoints g"
    and i1: "es_idx1 s = rawIndex g \<lparr>vx = x, vy = y, vz = z\<rparr>"
    and i2: "es_idx2 s = rawIndex g \<lparr>vx = x, vy = y, vz = z + 1\<rparr>"
  shows "fill_edgeZ localToGlobal to_double f solver (m_gridStep g) values mat x y z s =
           Inr (s\<lparr>es_edges := es_edges s @
                     edgesAt 2 localToGlobal to_double f solver g lowest \<lparr>vx = x, vy = y, vz = z\<rparr>,
                  es_idx1 := es_idx1 s + 1, es_idx2 := es_idx2 s + 1\<rparr>)"
proof -
  note rp = rawIndex_lattice [OF inv p] and rq = rawIndex_lattice [OF inv q]
  from sm have len: "length values = vertexCount g" "length mat = vertexCount g"
    and vp: "values ! vertexIndex g \<lparr>vx = x, vy = y, vz = z\<rparr>
               = sampleValue f g lowest \<lparr>vx = x, vy = y, vz = z\<rparr>"
       "mat ! vertexIndex g \<lparr>vx = x, vy = y, vz = z\<rparr>
               = sampleMaterial f g lowest \<lparr>vx = x, vy = y, vz = z\<rparr>"
    and vq: "values ! vertexIndex g \<lparr>vx = x, vy = y, vz = z + 1\<rparr>
               = sampleValue f g lowest \<lparr>vx = x, vy = y, vz = z + 1\<rparr>"
       "mat ! vertexIndex g \<lparr>vx = x, vy = y, vz = z + 1\<rparr>
               = sampleMaterial f g lowest \<lparr>vx = x, vy = y, vz = z + 1\<rparr>"
    using p q unfolding sampled_def by blast+
  have u: "unat (es_idx1 s) = vertexIndex g \<lparr>vx = x, vy = y, vz = z\<rparr>"
    "unat (es_idx2 s) = vertexIndex g \<lparr>vx = x, vy = y, vz = z + 1\<rparr>"
    by (simp_all only: i1 i2 rp rq)
  show ?thesis
    unfolding fill_edgeZ_def u Let_def
    using rp(2) rq(2)
    by (simp add: len vp vq edgesAt_def edgeEntry_def edgeRoot_def isCrossing_def isInside_def
        upperEnd_def globalPoint_def coord_def setCoord_def findAlong_def)
qed

lemma for_each_accumulate:
  assumes step: "\<And>x s. lo \<le> x \<Longrightarrow> x \<le> hi \<Longrightarrow> I x s \<Longrightarrow>
                   \<exists>s'. body x s = Inr s' \<and> I (x + 1) s' \<and> es_edges s' = es_edges s @ E x"
    and init: "I lo s" and le: "lo \<le> hi + 1"
  shows "\<exists>s'. for_each [lo..hi] body s = Inr s' \<and> I (hi + 1) s' \<and>
              es_edges s' = es_edges s @ concat (map E [lo..hi])"
proof -
  let ?P = "\<lambda>x s'. I x s' \<and> es_edges s' = es_edges s @ concat (map E [lo..x - 1])"
  have "\<exists>s'. for_each [lo..hi] body s = Inr s' \<and> ?P (hi + 1) s'"
  proof (rule for_each_range [where P = ?P])
    show "?P lo s" using init by simp
    show "lo \<le> hi + 1" by (rule le)
    fix x t assume x: "lo \<le> x" "x \<le> hi" and P: "?P x t"
    from step [OF x] P obtain t' where
      t': "body x t = Inr t'" "I (x + 1) t'" "es_edges t' = es_edges t @ E x" by blast
    have "[lo..x] = [lo..x - 1] @ [x]" using x(1) by (rule upto_snoc)
    then have "es_edges t' = es_edges s @ concat (map E [lo..x + 1 - 1])"
      using P t'(3) by simp
    with t'(1,2) show "\<exists>s'. body x t = Inr s' \<and> ?P (x + 1) s'" by blast
  qed
  then show ?thesis by simp
qed

lemma rawIndex_shift_z:
  assumes "grid_inv g"
  shows "rawIndex g \<lparr>vx = a, vy = b, vz = c + (2 * m_halfSize g + 1)\<rparr>
          = rawIndex g \<lparr>vx = a + 1, vy = b, vz = c\<rparr>"
proof -
  have e: "(word_of_int (c + (2 * m_halfSize g + 1) + m_halfSize g) :: uint32)
            = word_of_int (c + m_halfSize g) + (m_size g + 1)"
    unfolding grid_inv_size_word [OF assms] by (simp add: algebra_simps)
  show ?thesis
    unfolding rawIndex_def uint32_t_def vec3.simps e by (simp add: algebra_simps)
qed

lemma rawIndex_shift_x:
  assumes "grid_inv g"
  shows "rawIndex g \<lparr>vx = a + (2 * m_halfSize g + 1), vy = b, vz = c\<rparr>
          = rawIndex g \<lparr>vx = a, vy = b + 1, vz = c\<rparr>"
proof -
  have e: "(word_of_int (a + (2 * m_halfSize g + 1) + m_halfSize g) :: uint32)
            = word_of_int (a + m_halfSize g) + (m_size g + 1)"
    unfolding grid_inv_size_word [OF assms] by (simp add: algebra_simps)
  show ?thesis
    unfolding rawIndex_def uint32_t_def vec3.simps e by (simp add: algebra_simps)
qed

lemma fill_edgesX_z:
  fixes f :: "'d::{plus,minus,inverse,zero,ord} ScalarField"
  assumes inv: "grid_inv g" and sm: "sampled f g lowest values mat"
    and x: "- m_halfSize g \<le> x" "x \<le> m_halfSize g - 1"
    and y: "- m_halfSize g \<le> y" "y \<le> m_halfSize g"
    and i1: "es_idx1 s = rawIndex g \<lparr>vx = x, vy = y, vz = - m_halfSize g\<rparr>"
    and i2: "es_idx2 s = rawIndex g \<lparr>vx = x + 1, vy = y, vz = - m_halfSize g\<rparr>"
  shows "\<exists>s'. for_each [- m_halfSize g .. m_halfSize g]
                (\<lambda>z s. fill_edgeX localToGlobal to_double f solver (m_gridStep g) values mat x y z s) s
              = Inr s' \<and>
              (es_idx1 s' = rawIndex g \<lparr>vx = x, vy = y, vz = m_halfSize g + 1\<rparr> \<and>
               es_idx2 s' = rawIndex g \<lparr>vx = x + 1, vy = y, vz = m_halfSize g + 1\<rparr>) \<and>
              es_edges s' = es_edges s @
                concat (map (\<lambda>z. edgesAt 0 localToGlobal to_double f solver g lowest \<lparr>vx = x, vy = y, vz = z\<rparr>)
                         [- m_halfSize g .. m_halfSize g])"
proof (rule for_each_accumulate
    [where I = "\<lambda>z (s :: 'd edge_state). es_idx1 s = rawIndex g \<lparr>vx = x, vy = y, vz = z\<rparr> \<and>
                       es_idx2 s = rawIndex g \<lparr>vx = x + 1, vy = y, vz = z\<rparr>"])
  show "es_idx1 s = rawIndex g \<lparr>vx = x, vy = y, vz = - m_halfSize g\<rparr> \<and>
        es_idx2 s = rawIndex g \<lparr>vx = x + 1, vy = y, vz = - m_halfSize g\<rparr>"
    using i1 i2 by simp
  show "- m_halfSize g \<le> m_halfSize g + 1" using grid_inv_half_pos [OF inv] by simp
  fix z and t :: "'d edge_state"
  assume z: "- m_halfSize g \<le> z" "z \<le> m_halfSize g"
    and I: "es_idx1 t = rawIndex g \<lparr>vx = x, vy = y, vz = z\<rparr> \<and>
            es_idx2 t = rawIndex g \<lparr>vx = x + 1, vy = y, vz = z\<rparr>"
  have p: "\<lparr>vx = x, vy = y, vz = z\<rparr> \<in> latticePoints g"
    and q: "\<lparr>vx = x + 1, vy = y, vz = z\<rparr> \<in> latticePoints g"
    using x y z by (simp_all add: latticePoints_def)
  from I have j1: "es_idx1 t = rawIndex g \<lparr>vx = x, vy = y, vz = z\<rparr>"
    and j2: "es_idx2 t = rawIndex g \<lparr>vx = x + 1, vy = y, vz = z\<rparr>" by blast+
  show "\<exists>s'. fill_edgeX localToGlobal to_double f solver (m_gridStep g) values mat x y z t = Inr s' \<and>
             (es_idx1 s' = rawIndex g \<lparr>vx = x, vy = y, vz = z + 1\<rparr> \<and>
              es_idx2 s' = rawIndex g \<lparr>vx = x + 1, vy = y, vz = z + 1\<rparr>) \<and>
             es_edges s' = es_edges t @
               edgesAt 0 localToGlobal to_double f solver g lowest \<lparr>vx = x, vy = y, vz = z\<rparr>"
    unfolding fill_edgeX_step [OF inv sm p q j1 j2]
    by (simp add: j1 j2 rawIndex_succ_z)
qed

lemma fill_edgesX_x:
  fixes f :: "'d::{plus,minus,inverse,zero,ord} ScalarField"
  assumes inv: "grid_inv g" and sm: "sampled f g lowest values mat"
    and y: "- m_halfSize g \<le> y" "y \<le> m_halfSize g"
    and i1: "es_idx1 s = rawIndex g \<lparr>vx = - m_halfSize g, vy = y, vz = - m_halfSize g\<rparr>"
    and i2: "es_idx2 s = rawIndex g \<lparr>vx = - m_halfSize g + 1, vy = y, vz = - m_halfSize g\<rparr>"
  shows "\<exists>s'. for_each [- m_halfSize g .. m_halfSize g - 1]
                (\<lambda>x s. for_each [- m_halfSize g .. m_halfSize g]
                   (\<lambda>z s. fill_edgeX localToGlobal to_double f solver (m_gridStep g) values mat x y z s) s) s
              = Inr s' \<and>
              (es_idx1 s' = rawIndex g \<lparr>vx = m_halfSize g, vy = y, vz = - m_halfSize g\<rparr> \<and>
               es_idx2 s' = rawIndex g \<lparr>vx = m_halfSize g + 1, vy = y, vz = - m_halfSize g\<rparr>) \<and>
              es_edges s' = es_edges s @
                concat (map (\<lambda>x. concat (map (\<lambda>z. edgesAt 0 localToGlobal to_double f solver g lowest
                                                      \<lparr>vx = x, vy = y, vz = z\<rparr>)
                                         [- m_halfSize g .. m_halfSize g]))
                         [- m_halfSize g .. m_halfSize g - 1])"
proof -
  let ?I = "\<lambda>x (s :: 'd edge_state). es_idx1 s = rawIndex g \<lparr>vx = x, vy = y, vz = - m_halfSize g\<rparr> \<and>
                       es_idx2 s = rawIndex g \<lparr>vx = x + 1, vy = y, vz = - m_halfSize g\<rparr>"
  have t0: "m_halfSize g - 1 + 1 = m_halfSize g" by simp
  have "\<exists>s'. for_each [- m_halfSize g .. m_halfSize g - 1]
                (\<lambda>x s. for_each [- m_halfSize g .. m_halfSize g]
                   (\<lambda>z s. fill_edgeX localToGlobal to_double f solver (m_gridStep g) values mat x y z s) s) s
              = Inr s' \<and> ?I (m_halfSize g - 1 + 1) s' \<and>
              es_edges s' = es_edges s @
                concat (map (\<lambda>x. concat (map (\<lambda>z. edgesAt 0 localToGlobal to_double f solver g lowest
                                                      \<lparr>vx = x, vy = y, vz = z\<rparr>)
                                         [- m_halfSize g .. m_halfSize g]))
                         [- m_halfSize g .. m_halfSize g - 1])"
  proof (rule for_each_accumulate [where I = ?I])
  show "es_idx1 s = rawIndex g \<lparr>vx = - m_halfSize g, vy = y, vz = - m_halfSize g\<rparr> \<and>
        es_idx2 s = rawIndex g \<lparr>vx = - m_halfSize g + 1, vy = y, vz = - m_halfSize g\<rparr>"
    using i1 i2 by simp
  show "- m_halfSize g \<le> m_halfSize g - 1 + 1" using grid_inv_half_pos [OF inv] by simp
  fix x and t :: "'d edge_state"
  assume x: "- m_halfSize g \<le> x" "x \<le> m_halfSize g - 1"
    and I: "es_idx1 t = rawIndex g \<lparr>vx = x, vy = y, vz = - m_halfSize g\<rparr> \<and>
            es_idx2 t = rawIndex g \<lparr>vx = x + 1, vy = y, vz = - m_halfSize g\<rparr>"
  from I have j1: "es_idx1 t = rawIndex g \<lparr>vx = x, vy = y, vz = - m_halfSize g\<rparr>"
    and j2: "es_idx2 t = rawIndex g \<lparr>vx = x + 1, vy = y, vz = - m_halfSize g\<rparr>" by blast+
  from fill_edgesX_z [OF inv sm x y j1 j2, of localToGlobal to_double solver]
  show "\<exists>s'. for_each [- m_halfSize g .. m_halfSize g]
                (\<lambda>z s. fill_edgeX localToGlobal to_double f solver (m_gridStep g) values mat x y z s) t
              = Inr s' \<and>
             (es_idx1 s' = rawIndex g \<lparr>vx = x + 1, vy = y, vz = - m_halfSize g\<rparr> \<and>
              es_idx2 s' = rawIndex g \<lparr>vx = x + 1 + 1, vy = y, vz = - m_halfSize g\<rparr>) \<and>
             es_edges s' = es_edges t @
               concat (map (\<lambda>z. edgesAt 0 localToGlobal to_double f solver g lowest \<lparr>vx = x, vy = y, vz = z\<rparr>)
                         [- m_halfSize g .. m_halfSize g])"
    unfolding rawIndex_wrap_z [OF inv] by blast
  qed
  then show ?thesis by (simp only: t0)
qed

lemma fill_edgesX_run:
  fixes f :: "'d::{plus,minus,inverse,zero,ord} ScalarField"
  assumes inv: "grid_inv g" and sm: "sampled f g lowest values mat"
  shows "\<exists>s'. fill_edgesX localToGlobal to_double f solver g values mat
                \<lparr>es_idx1 = 0, es_idx2 = m_size g + 1, es_edges = []\<rparr> = Inr s' \<and>
              es_edges s' = scanEdges 0 g (edgesAt 0 localToGlobal to_double f solver g lowest)"
proof -
  let ?s0 = "\<lparr>es_idx1 = 0, es_idx2 = m_size g + 1, es_edges = []\<rparr> :: 'd edge_state"
  let ?I = "\<lambda>y (s :: 'd edge_state). es_idx1 s = rawIndex g \<lparr>vx = - m_halfSize g, vy = y, vz = - m_halfSize g\<rparr> \<and>
                 es_idx2 s = rawIndex g \<lparr>vx = - m_halfSize g + 1, vy = y, vz = - m_halfSize g\<rparr>"
  let ?body = "\<lambda>y s. case for_each [- m_halfSize g .. m_halfSize g - 1]
                      (\<lambda>x s. for_each [- m_halfSize g .. m_halfSize g]
                                (\<lambda>z s. fill_edgeX localToGlobal to_double f solver (m_gridStep g)
                                          values mat x y z s) s) s of
                 Inl e \<Rightarrow> Inl e
               | Inr s \<Rightarrow> Inr (s\<lparr>es_idx1 := es_idx1 s + (m_size g + 1),
                                  es_idx2 := es_idx2 s + (m_size g + 1)\<rparr>)"
  let ?E = "\<lambda>y. concat (map (\<lambda>x. concat (map (\<lambda>z. edgesAt 0 localToGlobal to_double f solver g lowest
                                                      \<lparr>vx = x, vy = y, vz = z\<rparr>)
                                         [- m_halfSize g .. m_halfSize g]))
                         [- m_halfSize g .. m_halfSize g - 1])"
  have "\<exists>s'. for_each [- m_halfSize g .. m_halfSize g] ?body ?s0 = Inr s' \<and> ?I (m_halfSize g + 1) s' \<and>
              es_edges s' = es_edges ?s0 @ concat (map ?E [- m_halfSize g .. m_halfSize g])"
  proof (rule for_each_accumulate [where I = ?I])
    have "m_size g + 1 = rawIndex g \<lparr>vx = - m_halfSize g + 1, vy = - m_halfSize g, vz = - m_halfSize g\<rparr>"
      by (simp add: rawIndex_def uint32_t_def)
    then show "?I (- m_halfSize g) ?s0" by (simp add: rawIndex_origin)
    show "- m_halfSize g \<le> m_halfSize g + 1" using grid_inv_half_pos [OF inv] by simp
    fix y and t :: "'d edge_state"
    assume y: "- m_halfSize g \<le> y" "y \<le> m_halfSize g" and I: "?I y t"
    from I have j1: "es_idx1 t = rawIndex g \<lparr>vx = - m_halfSize g, vy = y, vz = - m_halfSize g\<rparr>"
      and j2: "es_idx2 t = rawIndex g \<lparr>vx = - m_halfSize g + 1, vy = y, vz = - m_halfSize g\<rparr>"
      by blast+
    from fill_edgesX_x [OF inv sm y j1 j2, of localToGlobal to_double solver] obtain s1 where
      r: "for_each [- m_halfSize g .. m_halfSize g - 1]
                (\<lambda>x s. for_each [- m_halfSize g .. m_halfSize g]
                   (\<lambda>z s. fill_edgeX localToGlobal to_double f solver (m_gridStep g) values mat x y z s) s) t
              = Inr s1"
      and k1: "es_idx1 s1 = rawIndex g \<lparr>vx = m_halfSize g, vy = y, vz = - m_halfSize g\<rparr>"
      and k2: "es_idx2 s1 = rawIndex g \<lparr>vx = m_halfSize g + 1, vy = y, vz = - m_halfSize g\<rparr>"
      and e: "es_edges s1 = es_edges t @ ?E y" by blast
    have t2: "m_halfSize g + 1 + 1 = - m_halfSize g + 1 + (2 * m_halfSize g + 1)" by simp
    have a1: "rawIndex g \<lparr>vx = m_halfSize g, vy = y, vz = - m_halfSize g\<rparr> + (m_size g + 1)
              = rawIndex g \<lparr>vx = - m_halfSize g, vy = y + 1, vz = - m_halfSize g\<rparr>"
      by (simp only: rawIndex_succ_x rawIndex_wrap_x [OF inv])
    have a2: "rawIndex g \<lparr>vx = m_halfSize g + 1, vy = y, vz = - m_halfSize g\<rparr> + (m_size g + 1)
              = rawIndex g \<lparr>vx = - m_halfSize g + 1, vy = y + 1, vz = - m_halfSize g\<rparr>"
      unfolding rawIndex_succ_x t2 by (rule rawIndex_shift_x [OF inv])
    define s2 where "s2 = s1\<lparr>es_idx1 := es_idx1 s1 + (m_size g + 1),
                                  es_idx2 := es_idx2 s1 + (m_size g + 1)\<rparr>"
    have run: "?body y t = Inr s2" by (simp add: r s2_def)
    have "es_idx1 s2 = es_idx1 s1 + (m_size g + 1)" "es_idx2 s2 = es_idx2 s1 + (m_size g + 1)"
      "es_edges s2 = es_edges s1" by (simp_all add: s2_def)
    then have "?I (y + 1) s2" "es_edges s2 = es_edges t @ ?E y"
      by (simp_all only: k1 k2 a1 a2 e simp_thms)
    with run show "\<exists>s'. ?body y t = Inr s' \<and> ?I (y + 1) s' \<and> es_edges s' = es_edges t @ ?E y"
      by blast
  qed
  then show ?thesis
    unfolding fill_edgesX_def scanEdges_def by auto
qed

lemma fill_edgesY_z:
  fixes f :: "'d::{plus,minus,inverse,zero,ord} ScalarField"
  assumes inv: "grid_inv g" and sm: "sampled f g lowest values mat"
    and x: "- m_halfSize g \<le> x" "x \<le> m_halfSize g"
    and y: "- m_halfSize g \<le> y" "y \<le> m_halfSize g - 1"
    and i1: "es_idx1 s = rawIndex g \<lparr>vx = x, vy = y, vz = - m_halfSize g\<rparr>"
    and i2: "es_idx2 s = rawIndex g \<lparr>vx = x, vy = y + 1, vz = - m_halfSize g\<rparr>"
  shows "\<exists>s'. for_each [- m_halfSize g .. m_halfSize g]
                (\<lambda>z s. fill_edgeY localToGlobal to_double f solver (m_gridStep g) values mat x y z s) s
              = Inr s' \<and>
              (es_idx1 s' = rawIndex g \<lparr>vx = x, vy = y, vz = m_halfSize g + 1\<rparr> \<and>
               es_idx2 s' = rawIndex g \<lparr>vx = x, vy = y + 1, vz = m_halfSize g + 1\<rparr>) \<and>
              es_edges s' = es_edges s @
                concat (map (\<lambda>z. edgesAt 1 localToGlobal to_double f solver g lowest \<lparr>vx = x, vy = y, vz = z\<rparr>)
                         [- m_halfSize g .. m_halfSize g])"
proof (rule for_each_accumulate
    [where I = "\<lambda>z (s :: 'd edge_state). es_idx1 s = rawIndex g \<lparr>vx = x, vy = y, vz = z\<rparr> \<and>
                       es_idx2 s = rawIndex g \<lparr>vx = x, vy = y + 1, vz = z\<rparr>"])
  show "es_idx1 s = rawIndex g \<lparr>vx = x, vy = y, vz = - m_halfSize g\<rparr> \<and>
        es_idx2 s = rawIndex g \<lparr>vx = x, vy = y + 1, vz = - m_halfSize g\<rparr>"
    using i1 i2 by simp
  show "- m_halfSize g \<le> m_halfSize g + 1" using grid_inv_half_pos [OF inv] by simp
  fix z and t :: "'d edge_state"
  assume z: "- m_halfSize g \<le> z" "z \<le> m_halfSize g"
    and I: "es_idx1 t = rawIndex g \<lparr>vx = x, vy = y, vz = z\<rparr> \<and>
            es_idx2 t = rawIndex g \<lparr>vx = x, vy = y + 1, vz = z\<rparr>"
  have p: "\<lparr>vx = x, vy = y, vz = z\<rparr> \<in> latticePoints g"
    and q: "\<lparr>vx = x, vy = y + 1, vz = z\<rparr> \<in> latticePoints g"
    using x y z by (simp_all add: latticePoints_def)
  from I have j1: "es_idx1 t = rawIndex g \<lparr>vx = x, vy = y, vz = z\<rparr>"
    and j2: "es_idx2 t = rawIndex g \<lparr>vx = x, vy = y + 1, vz = z\<rparr>" by blast+
  show "\<exists>s'. fill_edgeY localToGlobal to_double f solver (m_gridStep g) values mat x y z t = Inr s' \<and>
             (es_idx1 s' = rawIndex g \<lparr>vx = x, vy = y, vz = z + 1\<rparr> \<and>
              es_idx2 s' = rawIndex g \<lparr>vx = x, vy = y + 1, vz = z + 1\<rparr>) \<and>
             es_edges s' = es_edges t @
               edgesAt 1 localToGlobal to_double f solver g lowest \<lparr>vx = x, vy = y, vz = z\<rparr>"
    unfolding fill_edgeY_step [OF inv sm p q j1 j2]
    by (simp add: j1 j2 rawIndex_succ_z)
qed

lemma fill_edgesY_x:
  fixes f :: "'d::{plus,minus,inverse,zero,ord} ScalarField"
  assumes inv: "grid_inv g" and sm: "sampled f g lowest values mat"
    and y: "- m_halfSize g \<le> y" "y \<le> m_halfSize g - 1"
    and i1: "es_idx1 s = rawIndex g \<lparr>vx = - m_halfSize g, vy = y, vz = - m_halfSize g\<rparr>"
    and i2: "es_idx2 s = rawIndex g \<lparr>vx = - m_halfSize g, vy = y + 1, vz = - m_halfSize g\<rparr>"
  shows "\<exists>s'. for_each [- m_halfSize g .. m_halfSize g]
                (\<lambda>x s. for_each [- m_halfSize g .. m_halfSize g]
                   (\<lambda>z s. fill_edgeY localToGlobal to_double f solver (m_gridStep g) values mat x y z s) s) s
              = Inr s' \<and>
              (es_idx1 s' = rawIndex g \<lparr>vx = m_halfSize g + 1, vy = y, vz = - m_halfSize g\<rparr> \<and>
               es_idx2 s' = rawIndex g \<lparr>vx = m_halfSize g + 1, vy = y + 1, vz = - m_halfSize g\<rparr>) \<and>
              es_edges s' = es_edges s @
                concat (map (\<lambda>x. concat (map (\<lambda>z. edgesAt 1 localToGlobal to_double f solver g lowest
                                                      \<lparr>vx = x, vy = y, vz = z\<rparr>)
                                         [- m_halfSize g .. m_halfSize g]))
                         [- m_halfSize g .. m_halfSize g])"
proof (rule for_each_accumulate
    [where I = "\<lambda>x (s :: 'd edge_state). es_idx1 s = rawIndex g \<lparr>vx = x, vy = y, vz = - m_halfSize g\<rparr> \<and>
                       es_idx2 s = rawIndex g \<lparr>vx = x, vy = y + 1, vz = - m_halfSize g\<rparr>"])
  show "es_idx1 s = rawIndex g \<lparr>vx = - m_halfSize g, vy = y, vz = - m_halfSize g\<rparr> \<and>
        es_idx2 s = rawIndex g \<lparr>vx = - m_halfSize g, vy = y + 1, vz = - m_halfSize g\<rparr>"
    using i1 i2 by simp
  show "- m_halfSize g \<le> m_halfSize g + 1" using grid_inv_half_pos [OF inv] by simp
  fix x and t :: "'d edge_state"
  assume x: "- m_halfSize g \<le> x" "x \<le> m_halfSize g"
    and I: "es_idx1 t = rawIndex g \<lparr>vx = x, vy = y, vz = - m_halfSize g\<rparr> \<and>
            es_idx2 t = rawIndex g \<lparr>vx = x, vy = y + 1, vz = - m_halfSize g\<rparr>"
  from I have j1: "es_idx1 t = rawIndex g \<lparr>vx = x, vy = y, vz = - m_halfSize g\<rparr>"
    and j2: "es_idx2 t = rawIndex g \<lparr>vx = x, vy = y + 1, vz = - m_halfSize g\<rparr>" by blast+
  from fill_edgesY_z [OF inv sm x y j1 j2, of localToGlobal to_double solver]
  show "\<exists>s'. for_each [- m_halfSize g .. m_halfSize g]
                (\<lambda>z s. fill_edgeY localToGlobal to_double f solver (m_gridStep g) values mat x y z s) t
              = Inr s' \<and>
             (es_idx1 s' = rawIndex g \<lparr>vx = x + 1, vy = y, vz = - m_halfSize g\<rparr> \<and>
              es_idx2 s' = rawIndex g \<lparr>vx = x + 1, vy = y + 1, vz = - m_halfSize g\<rparr>) \<and>
             es_edges s' = es_edges t @
               concat (map (\<lambda>z. edgesAt 1 localToGlobal to_double f solver g lowest \<lparr>vx = x, vy = y, vz = z\<rparr>)
                         [- m_halfSize g .. m_halfSize g])"
    unfolding rawIndex_wrap_z [OF inv] by blast
qed

lemma fill_edgesY_run:
  fixes f :: "'d::{plus,minus,inverse,zero,ord} ScalarField"
  assumes inv: "grid_inv g" and sm: "sampled f g lowest values mat"
  shows "\<exists>s'. fill_edgesY localToGlobal to_double f solver g values mat
                \<lparr>es_idx1 = 0, es_idx2 = (m_size g + 1) * (m_size g + 1), es_edges = []\<rparr> = Inr s' \<and>
              es_edges s' = scanEdges 1 g (edgesAt 1 localToGlobal to_double f solver g lowest)"
proof -
  let ?s0 = "\<lparr>es_idx1 = 0, es_idx2 = (m_size g + 1) * (m_size g + 1), es_edges = []\<rparr> :: 'd edge_state"
  let ?I = "\<lambda>y (s :: 'd edge_state). es_idx1 s = rawIndex g \<lparr>vx = - m_halfSize g, vy = y, vz = - m_halfSize g\<rparr> \<and>
                 es_idx2 s = rawIndex g \<lparr>vx = - m_halfSize g, vy = y + 1, vz = - m_halfSize g\<rparr>"
  let ?body = "\<lambda>y s. for_each [- m_halfSize g .. m_halfSize g]
                 (\<lambda>x s. for_each [- m_halfSize g .. m_halfSize g]
                           (\<lambda>z s. fill_edgeY localToGlobal to_double f solver (m_gridStep g)
                                     values mat x y z s) s) s"
  let ?E = "\<lambda>y. concat (map (\<lambda>x. concat (map (\<lambda>z. edgesAt 1 localToGlobal to_double f solver g lowest
                                                      \<lparr>vx = x, vy = y, vz = z\<rparr>)
                                         [- m_halfSize g .. m_halfSize g]))
                         [- m_halfSize g .. m_halfSize g])"
  have "\<exists>s'. for_each [- m_halfSize g .. m_halfSize g - 1] ?body ?s0 = Inr s' \<and>
              ?I (m_halfSize g - 1 + 1) s' \<and>
              es_edges s' = es_edges ?s0 @ concat (map ?E [- m_halfSize g .. m_halfSize g - 1])"
  proof (rule for_each_accumulate [where I = ?I])
    have "(m_size g + 1) * (m_size g + 1)
            = rawIndex g \<lparr>vx = - m_halfSize g, vy = - m_halfSize g + 1, vz = - m_halfSize g\<rparr>"
      by (simp add: rawIndex_def uint32_t_def)
    then show "?I (- m_halfSize g) ?s0" by (simp add: rawIndex_origin)
    show "- m_halfSize g \<le> m_halfSize g - 1 + 1" using grid_inv_half_pos [OF inv] by simp
    fix y and t :: "'d edge_state"
    assume y: "- m_halfSize g \<le> y" "y \<le> m_halfSize g - 1" and I: "?I y t"
    from I have j1: "es_idx1 t = rawIndex g \<lparr>vx = - m_halfSize g, vy = y, vz = - m_halfSize g\<rparr>"
      and j2: "es_idx2 t = rawIndex g \<lparr>vx = - m_halfSize g, vy = y + 1, vz = - m_halfSize g\<rparr>"
      by blast+
    from fill_edgesY_x [OF inv sm y j1 j2, of localToGlobal to_double solver]
    show "\<exists>s'. ?body y t = Inr s' \<and> ?I (y + 1) s' \<and> es_edges s' = es_edges t @ ?E y"
      unfolding rawIndex_wrap_x [OF inv] by blast
  qed
  then show ?thesis
    unfolding fill_edgesY_def scanEdges_def by auto
qed

lemma fill_edgesZ_z:
  fixes f :: "'d::{plus,minus,inverse,zero,ord} ScalarField"
  assumes inv: "grid_inv g" and sm: "sampled f g lowest values mat"
    and x: "- m_halfSize g \<le> x" "x \<le> m_halfSize g"
    and y: "- m_halfSize g \<le> y" "y \<le> m_halfSize g"
    and i1: "es_idx1 s = rawIndex g \<lparr>vx = x, vy = y, vz = - m_halfSize g\<rparr>"
    and i2: "es_idx2 s = rawIndex g \<lparr>vx = x, vy = y, vz = - m_halfSize g + 1\<rparr>"
  shows "\<exists>s'. for_each [- m_halfSize g .. m_halfSize g - 1]
                (\<lambda>z s. fill_edgeZ localToGlobal to_double f solver (m_gridStep g) values mat x y z s) s
              = Inr s' \<and>
              (es_idx1 s' = rawIndex g \<lparr>vx = x, vy = y, vz = m_halfSize g\<rparr> \<and>
               es_idx2 s' = rawIndex g \<lparr>vx = x, vy = y, vz = m_halfSize g + 1\<rparr>) \<and>
              es_edges s' = es_edges s @
                concat (map (\<lambda>z. edgesAt 2 localToGlobal to_double f solver g lowest \<lparr>vx = x, vy = y, vz = z\<rparr>)
                         [- m_halfSize g .. m_halfSize g - 1])"
proof -
  let ?I = "\<lambda>z (s :: 'd edge_state). es_idx1 s = rawIndex g \<lparr>vx = x, vy = y, vz = z\<rparr> \<and>
                       es_idx2 s = rawIndex g \<lparr>vx = x, vy = y, vz = z + 1\<rparr>"
  have t0: "m_halfSize g - 1 + 1 = m_halfSize g" by simp
  have "\<exists>s'. for_each [- m_halfSize g .. m_halfSize g - 1]
                (\<lambda>z s. fill_edgeZ localToGlobal to_double f solver (m_gridStep g) values mat x y z s) s
              = Inr s' \<and> ?I (m_halfSize g - 1 + 1) s' \<and>
              es_edges s' = es_edges s @
                concat (map (\<lambda>z. edgesAt 2 localToGlobal to_double f solver g lowest \<lparr>vx = x, vy = y, vz = z\<rparr>)
                         [- m_halfSize g .. m_halfSize g - 1])"
  proof (rule for_each_accumulate [where I = ?I])
    show "?I (- m_halfSize g) s" using i1 i2 by simp
    show "- m_halfSize g \<le> m_halfSize g - 1 + 1" using grid_inv_half_pos [OF inv] by simp
    fix z and t :: "'d edge_state"
    assume z: "- m_halfSize g \<le> z" "z \<le> m_halfSize g - 1" and I: "?I z t"
    have p: "\<lparr>vx = x, vy = y, vz = z\<rparr> \<in> latticePoints g"
      and q: "\<lparr>vx = x, vy = y, vz = z + 1\<rparr> \<in> latticePoints g"
      using x y z by (simp_all add: latticePoints_def)
    from I have j1: "es_idx1 t = rawIndex g \<lparr>vx = x, vy = y, vz = z\<rparr>"
      and j2: "es_idx2 t = rawIndex g \<lparr>vx = x, vy = y, vz = z + 1\<rparr>" by blast+
    show "\<exists>s'. fill_edgeZ localToGlobal to_double f solver (m_gridStep g) values mat x y z t = Inr s' \<and>
             ?I (z + 1) s' \<and>
             es_edges s' = es_edges t @
               edgesAt 2 localToGlobal to_double f solver g lowest \<lparr>vx = x, vy = y, vz = z\<rparr>"
      unfolding fill_edgeZ_step [OF inv sm p q j1 j2]
      by (simp add: j1 j2 rawIndex_succ_z)
  qed
  then show ?thesis by (simp only: t0)
qed

lemma fill_edgesZ_x:
  fixes f :: "'d::{plus,minus,inverse,zero,ord} ScalarField"
  assumes inv: "grid_inv g" and sm: "sampled f g lowest values mat"
    and y: "- m_halfSize g \<le> y" "y \<le> m_halfSize g"
    and i1: "es_idx1 s = rawIndex g \<lparr>vx = - m_halfSize g, vy = y, vz = - m_halfSize g\<rparr>"
    and i2: "es_idx2 s = rawIndex g \<lparr>vx = - m_halfSize g, vy = y, vz = - m_halfSize g + 1\<rparr>"
  shows "\<exists>s'. for_each [- m_halfSize g .. m_halfSize g]
                (\<lambda>x s. case for_each [- m_halfSize g .. m_halfSize g - 1]
                                (\<lambda>z s. fill_edgeZ localToGlobal to_double f solver (m_gridStep g)
                                          values mat x y z s) s of
                           Inl e \<Rightarrow> Inl e
                         | Inr s \<Rightarrow> Inr (s\<lparr>es_idx1 := es_idx1 s + 1, es_idx2 := es_idx2 s + 1\<rparr>)) s
              = Inr s' \<and>
              (es_idx1 s' = rawIndex g \<lparr>vx = m_halfSize g + 1, vy = y, vz = - m_halfSize g\<rparr> \<and>
               es_idx2 s' = rawIndex g \<lparr>vx = m_halfSize g + 1, vy = y, vz = - m_halfSize g + 1\<rparr>) \<and>
              es_edges s' = es_edges s @
                concat (map (\<lambda>x. concat (map (\<lambda>z. edgesAt 2 localToGlobal to_double f solver g lowest
                                                      \<lparr>vx = x, vy = y, vz = z\<rparr>)
                                         [- m_halfSize g .. m_halfSize g - 1]))
                         [- m_halfSize g .. m_halfSize g])"
proof (rule for_each_accumulate
    [where I = "\<lambda>x (s :: 'd edge_state). es_idx1 s = rawIndex g \<lparr>vx = x, vy = y, vz = - m_halfSize g\<rparr> \<and>
                       es_idx2 s = rawIndex g \<lparr>vx = x, vy = y, vz = - m_halfSize g + 1\<rparr>"])
  show "es_idx1 s = rawIndex g \<lparr>vx = - m_halfSize g, vy = y, vz = - m_halfSize g\<rparr> \<and>
        es_idx2 s = rawIndex g \<lparr>vx = - m_halfSize g, vy = y, vz = - m_halfSize g + 1\<rparr>"
    using i1 i2 by simp
  show "- m_halfSize g \<le> m_halfSize g + 1" using grid_inv_half_pos [OF inv] by simp
  fix x and t :: "'d edge_state"
  assume x: "- m_halfSize g \<le> x" "x \<le> m_halfSize g"
    and I: "es_idx1 t = rawIndex g \<lparr>vx = x, vy = y, vz = - m_halfSize g\<rparr> \<and>
            es_idx2 t = rawIndex g \<lparr>vx = x, vy = y, vz = - m_halfSize g + 1\<rparr>"
  let ?E = "concat (map (\<lambda>z. edgesAt 2 localToGlobal to_double f solver g lowest \<lparr>vx = x, vy = y, vz = z\<rparr>)
                         [- m_halfSize g .. m_halfSize g - 1])"
  from I have j1: "es_idx1 t = rawIndex g \<lparr>vx = x, vy = y, vz = - m_halfSize g\<rparr>"
    and j2: "es_idx2 t = rawIndex g \<lparr>vx = x, vy = y, vz = - m_halfSize g + 1\<rparr>" by blast+
  from fill_edgesZ_z [OF inv sm x y j1 j2, of localToGlobal to_double solver] obtain s1 where
    r: "for_each [- m_halfSize g .. m_halfSize g - 1]
                (\<lambda>z s. fill_edgeZ localToGlobal to_double f solver (m_gridStep g) values mat x y z s) t
              = Inr s1"
    and k1: "es_idx1 s1 = rawIndex g \<lparr>vx = x, vy = y, vz = m_halfSize g\<rparr>"
    and k2: "es_idx2 s1 = rawIndex g \<lparr>vx = x, vy = y, vz = m_halfSize g + 1\<rparr>"
    and e: "es_edges s1 = es_edges t @ ?E" by blast
  have t2: "m_halfSize g + 1 + 1 = - m_halfSize g + 1 + (2 * m_halfSize g + 1)" by simp
  have a1: "rawIndex g \<lparr>vx = x, vy = y, vz = m_halfSize g\<rparr> + 1
              = rawIndex g \<lparr>vx = x + 1, vy = y, vz = - m_halfSize g\<rparr>"
    by (simp only: rawIndex_succ_z rawIndex_wrap_z [OF inv])
  have a2: "rawIndex g \<lparr>vx = x, vy = y, vz = m_halfSize g + 1\<rparr> + 1
              = rawIndex g \<lparr>vx = x + 1, vy = y, vz = - m_halfSize g + 1\<rparr>"
    unfolding rawIndex_succ_z t2 by (rule rawIndex_shift_z [OF inv])
  define s2 where "s2 = s1\<lparr>es_idx1 := es_idx1 s1 + 1, es_idx2 := es_idx2 s1 + 1\<rparr>"
  have run: "(case for_each [- m_halfSize g .. m_halfSize g - 1]
                (\<lambda>z s. fill_edgeZ localToGlobal to_double f solver (m_gridStep g) values mat x y z s) t of
               Inl e \<Rightarrow> Inl e
             | Inr s \<Rightarrow> Inr (s\<lparr>es_idx1 := es_idx1 s + 1, es_idx2 := es_idx2 s + 1\<rparr>)) = Inr s2"
    by (simp add: r s2_def)
  have "es_idx1 s2 = es_idx1 s1 + 1" "es_idx2 s2 = es_idx2 s1 + 1"
    "es_edges s2 = es_edges s1" by (simp_all add: s2_def)
  then have "es_idx1 s2 = rawIndex g \<lparr>vx = x + 1, vy = y, vz = - m_halfSize g\<rparr> \<and>
             es_idx2 s2 = rawIndex g \<lparr>vx = x + 1, vy = y, vz = - m_halfSize g + 1\<rparr>"
    "es_edges s2 = es_edges t @ ?E"
    by (simp_all only: k1 k2 a1 a2 e simp_thms)
  with run show "\<exists>s'. (case for_each [- m_halfSize g .. m_halfSize g - 1]
                (\<lambda>z s. fill_edgeZ localToGlobal to_double f solver (m_gridStep g) values mat x y z s) t of
               Inl e \<Rightarrow> Inl e
             | Inr s \<Rightarrow> Inr (s\<lparr>es_idx1 := es_idx1 s + 1, es_idx2 := es_idx2 s + 1\<rparr>)) = Inr s' \<and>
             (es_idx1 s' = rawIndex g \<lparr>vx = x + 1, vy = y, vz = - m_halfSize g\<rparr> \<and>
              es_idx2 s' = rawIndex g \<lparr>vx = x + 1, vy = y, vz = - m_halfSize g + 1\<rparr>) \<and>
             es_edges s' = es_edges t @ ?E"
    by blast
qed

lemma fill_edgesZ_run:
  fixes f :: "'d::{plus,minus,inverse,zero,ord} ScalarField"
  assumes inv: "grid_inv g" and sm: "sampled f g lowest values mat"
  shows "\<exists>s'. fill_edgesZ localToGlobal to_double f solver g values mat
                \<lparr>es_idx1 = 0, es_idx2 = 1, es_edges = []\<rparr> = Inr s' \<and>
              es_edges s' = scanEdges 2 g (edgesAt 2 localToGlobal to_double f solver g lowest)"
proof -
  let ?s0 = "\<lparr>es_idx1 = 0, es_idx2 = 1, es_edges = []\<rparr> :: 'd edge_state"
  let ?I = "\<lambda>y (s :: 'd edge_state). es_idx1 s = rawIndex g \<lparr>vx = - m_halfSize g, vy = y, vz = - m_halfSize g\<rparr> \<and>
                 es_idx2 s = rawIndex g \<lparr>vx = - m_halfSize g, vy = y, vz = - m_halfSize g + 1\<rparr>"
  let ?body = "\<lambda>y s. for_each [- m_halfSize g .. m_halfSize g]
                 (\<lambda>x s. case for_each [- m_halfSize g .. m_halfSize g - 1]
                                (\<lambda>z s. fill_edgeZ localToGlobal to_double f solver (m_gridStep g)
                                          values mat x y z s) s of
                           Inl e \<Rightarrow> Inl e
                         | Inr s \<Rightarrow> Inr (s\<lparr>es_idx1 := es_idx1 s + 1, es_idx2 := es_idx2 s + 1\<rparr>))
                 s"
  let ?E = "\<lambda>y. concat (map (\<lambda>x. concat (map (\<lambda>z. edgesAt 2 localToGlobal to_double f solver g lowest
                                                      \<lparr>vx = x, vy = y, vz = z\<rparr>)
                                         [- m_halfSize g .. m_halfSize g - 1]))
                         [- m_halfSize g .. m_halfSize g])"
  have "\<exists>s'. for_each [- m_halfSize g .. m_halfSize g] ?body ?s0 = Inr s' \<and>
              ?I (m_halfSize g + 1) s' \<and>
              es_edges s' = es_edges ?s0 @ concat (map ?E [- m_halfSize g .. m_halfSize g])"
  proof (rule for_each_accumulate [where I = ?I])
    have "1 = rawIndex g \<lparr>vx = - m_halfSize g, vy = - m_halfSize g, vz = - m_halfSize g + 1\<rparr>"
      by (simp add: rawIndex_def uint32_t_def)
    then show "?I (- m_halfSize g) ?s0" by (simp add: rawIndex_origin)
    show "- m_halfSize g \<le> m_halfSize g + 1" using grid_inv_half_pos [OF inv] by simp
    fix y and t :: "'d edge_state"
    assume y: "- m_halfSize g \<le> y" "y \<le> m_halfSize g" and I: "?I y t"
    from I have j1: "es_idx1 t = rawIndex g \<lparr>vx = - m_halfSize g, vy = y, vz = - m_halfSize g\<rparr>"
      and j2: "es_idx2 t = rawIndex g \<lparr>vx = - m_halfSize g, vy = y, vz = - m_halfSize g + 1\<rparr>"
      by blast+
    have t1: "m_halfSize g + 1 = - m_halfSize g + (2 * m_halfSize g + 1)" by simp
    have w: "rawIndex g \<lparr>vx = m_halfSize g + 1, vy = y, vz = - m_halfSize g + 1\<rparr>
              = rawIndex g \<lparr>vx = - m_halfSize g, vy = y + 1, vz = - m_halfSize g + 1\<rparr>"
      apply (subst t1) by (rule rawIndex_shift_x [OF inv])
    from fill_edgesZ_x [OF inv sm y j1 j2, of localToGlobal to_double solver]
    show "\<exists>s'. ?body y t = Inr s' \<and> ?I (y + 1) s' \<and> es_edges s' = es_edges t @ ?E y"
      unfolding rawIndex_wrap_x [OF inv] w by blast
  qed
  then show ?thesis
    unfolding fill_edgesZ_def scanEdges_def by auto
qed

section \<open>The result of \<open>fill\<close>\<close>

lemma fill_run:
  fixes f :: "'d::{plus,minus,inverse,zero,ord} ScalarField"
    and localToGlobal :: "'d vec3 \<Rightarrow> 'd vec3" and to_double :: "int \<Rightarrow> 'd"
    and g :: "'d UniformGrid"
  assumes inv: "grid_inv g"
  defines "lowest \<equiv> lowestPoint localToGlobal to_double g"
  shows "\<exists>g' calls. fill localToGlobal to_double g f solver = Inr (g', calls) \<and>
           m_size g' = m_size g \<and> m_halfSize g' = m_halfSize g \<and>
           length (m_mat g') = vertexCount g \<and>
           (\<forall>p \<in> latticePoints g. m_mat g' ! vertexIndex g p = sampleMaterial f g lowest p) \<and>
           m_edgeX g' = scanEdges 0 g (edgesAt 0 localToGlobal to_double f solver g lowest) \<and>
           m_edgeY g' = scanEdges 1 g (edgesAt 1 localToGlobal to_double f solver g lowest) \<and>
           m_edgeZ g' = scanEdges 2 g (edgesAt 2 localToGlobal to_double f solver g lowest) \<and>
           (\<forall>c \<in> set calls. \<not> snd c > 0 \<and> snd c = field_value f (fst c))"
proof -
  let ?s0 = "\<lparr>fs_idx = 0, fs_call_pos = lowest, fs_values = replicate (unat (dataSize g)) 0,
              fs_mat = m_mat g, fs_material_calls = []\<rparr>"
  have d0: "vertices_done f g lowest ?s0" by (rule vertices_done_init [OF inv])
  from fill_vertices_run [OF inv d0] obtain vs where
    r0: "fill_vertices f g lowest ?s0 = Inr vs" and dv: "vertices_done f g lowest vs"
    and iv: "unat (fs_idx vs) = vertexCount g" by auto
  from dv have len: "length (fs_values vs) = vertexCount g" "length (fs_mat vs) = vertexCount g"
    and all: "\<forall>p \<in> latticePoints g. vertexIndex g p < vertexCount g \<longrightarrow>
        fs_values vs ! vertexIndex g p = sampleValue f g lowest p \<and>
        fs_mat vs ! vertexIndex g p = sampleMaterial f g lowest p"
    and calls: "\<forall>c \<in> set (fs_material_calls vs). \<not> snd c > 0 \<and> snd c = field_value f (fst c)"
    unfolding vertices_done_def iv by blast+
  have sm: "sampled f g lowest (fs_values vs) (fs_mat vs)"
    unfolding sampled_def using len all rawIndex_lattice(2) [OF inv] by blast
  from fill_edgesX_run [OF inv sm, of localToGlobal to_double solver] obtain ex where
    rx: "fill_edgesX localToGlobal to_double f solver g (fs_values vs) (fs_mat vs)
           \<lparr>es_idx1 = 0, es_idx2 = m_size g + 1, es_edges = []\<rparr> = Inr ex"
    and ex: "es_edges ex = scanEdges 0 g (edgesAt 0 localToGlobal to_double f solver g lowest)"
    by blast
  from fill_edgesY_run [OF inv sm, of localToGlobal to_double solver] obtain ey where
    ry: "fill_edgesY localToGlobal to_double f solver g (fs_values vs) (fs_mat vs)
           \<lparr>es_idx1 = 0, es_idx2 = (m_size g + 1) * (m_size g + 1), es_edges = []\<rparr> = Inr ey"
    and ey: "es_edges ey = scanEdges 1 g (edgesAt 1 localToGlobal to_double f solver g lowest)"
    by blast
  from fill_edgesZ_run [OF inv sm, of localToGlobal to_double solver] obtain ez where
    rz: "fill_edgesZ localToGlobal to_double f solver g (fs_values vs) (fs_mat vs)
           \<lparr>es_idx1 = 0, es_idx2 = 1, es_edges = []\<rparr> = Inr ez"
    and ez: "es_edges ez = scanEdges 2 g (edgesAt 2 localToGlobal to_double f solver g lowest)"
    by blast
  define g' where "g' = g\<lparr>m_mat := fs_mat vs, m_edgeX := es_edges ex,
                                   m_edgeY := es_edges ey, m_edgeZ := es_edges ez\<rparr>"
  have run: "fill localToGlobal to_double g f solver = Inr (g', fs_material_calls vs)"
    unfolding fill_def Let_def lowestPoint_def [symmetric] lowest_def [symmetric]
    by (simp add: r0 rx ry rz g'_def)
  have sel: "m_size g' = m_size g" "m_halfSize g' = m_halfSize g" "m_mat g' = fs_mat vs"
    "m_edgeX g' = es_edges ex" "m_edgeY g' = es_edges ey" "m_edgeZ g' = es_edges ez"
    by (simp_all add: g'_def)
  from sm have mats: "\<forall>p \<in> latticePoints g. fs_mat vs ! vertexIndex g p = sampleMaterial f g lowest p"
    unfolding sampled_def by blast
  have l: "length (m_mat g') = vertexCount g" using len(2) by (simp only: sel)
  have m: "\<forall>p \<in> latticePoints g. m_mat g' ! vertexIndex g p = sampleMaterial f g lowest p"
    using mats by (simp only: sel)
  have e: "m_edgeX g' = scanEdges 0 g (edgesAt 0 localToGlobal to_double f solver g lowest)"
    "m_edgeY g' = scanEdges 1 g (edgesAt 1 localToGlobal to_double f solver g lowest)"
    "m_edgeZ g' = scanEdges 2 g (edgesAt 2 localToGlobal to_double f solver g lowest)"
    by (simp_all only: sel ex ey ez)
  from run sel(1,2) l m e calls show ?thesis by blast
qed

section \<open>What \<open>fill\<close> leaves in the grid\<close>

lemma at_vertex_lattice:
  assumes inv: "grid_inv g" and p: "p \<in> latticePoints g"
  shows "at_vertex g (vx p) (vy p) (vz p) = Inr (m_mat g ! vertexIndex g p)"
proof -
  from p have v: "inLattice g (vx p) (vy p) (vz p)" by (simp only: latticePoints_iff)
  from vertexIndex_props [OF inv p] obtain i where
    i: "pointToIndex_v g p = Inr i" "vertexIndex g p = unat i" "unat i < vertexCount g" by blast
  from i(1) have pi: "pointToIndex g (vx p) (vy p) (vz p) = Inr i" by (simp only: pointToIndex_v_def)
  from i(3) have "unat i < length (m_mat g)" by (simp only: grid_inv_length [OF inv])
  then show ?thesis using inLattice_accepted [OF inv v] by (simp add: at_vertex_def pi i(2))
qed

lemma same_size_grid:
  assumes "m_size g' = m_size g" "m_halfSize g' = m_halfSize g"
  shows "latticePoints g' = latticePoints g" and "vertexIndex g' p = vertexIndex g p"
    and "vertexCount g' = vertexCount g"
  using assms
  by (simp_all add: latticePoints_def vertexIndex_def pointToIndex_v_def pointToIndex_def
      isVertexInGrid_def vertexCount_def)

lemma same_size_grid_inv:
  assumes inv: "grid_inv g" and "m_size g' = m_size g" "m_halfSize g' = m_halfSize g"
    and "length (m_mat g') = vertexCount g"
  shows "grid_inv g'"
proof -
  have "vertexCount g = length (m_mat g)" by (simp only: grid_inv_length [OF inv])
  with assms show ?thesis by (simp add: grid_inv_def)
qed

lemma fill_stored:
  fixes f :: "'d::{plus,minus,inverse,zero,ord} ScalarField"
    and localToGlobal :: "'d vec3 \<Rightarrow> 'd vec3" and to_double :: "int \<Rightarrow> 'd"
    and g :: "'d UniformGrid"
  assumes inv: "grid_inv g"
  defines "lowest \<equiv> lowestPoint localToGlobal to_double g"
  shows "\<exists>g' calls. fill localToGlobal to_double g f solver = Inr (g', calls) \<and> grid_inv g' \<and>
           (\<forall>p \<in> latticePoints g.
              at_vertex g' (vx p) (vy p) (vz p) = Inr (sampleMaterial f g lowest p)) \<and>
           m_edgeX g' = scanEdges 0 g (edgesAt 0 localToGlobal to_double f solver g lowest) \<and>
           m_edgeY g' = scanEdges 1 g (edgesAt 1 localToGlobal to_double f solver g lowest) \<and>
           m_edgeZ g' = scanEdges 2 g (edgesAt 2 localToGlobal to_double f solver g lowest) \<and>
           (\<forall>c \<in> set calls. \<not> snd c > 0 \<and> snd c = field_value f (fst c))"
proof -
  from fill_run [OF inv, of localToGlobal to_double f solver] obtain g' calls where
    run: "fill localToGlobal to_double g f solver = Inr (g', calls)"
    and sz: "m_size g' = m_size g" "m_halfSize g' = m_halfSize g"
    and len: "length (m_mat g') = vertexCount g"
    and mats: "\<forall>p \<in> latticePoints g. m_mat g' ! vertexIndex g p = sampleMaterial f g lowest p"
    and e: "m_edgeX g' = scanEdges 0 g (edgesAt 0 localToGlobal to_double f solver g lowest)"
      "m_edgeY g' = scanEdges 1 g (edgesAt 1 localToGlobal to_double f solver g lowest)"
      "m_edgeZ g' = scanEdges 2 g (edgesAt 2 localToGlobal to_double f solver g lowest)"
    and calls: "\<forall>c \<in> set calls. \<not> snd c > 0 \<and> snd c = field_value f (fst c)"
    unfolding lowest_def by blast
  have inv': "grid_inv g'" by (rule same_size_grid_inv [OF inv sz len])
  note same = same_size_grid [OF sz]
  have "at_vertex g' (vx p) (vy p) (vz p) = Inr (sampleMaterial f g lowest p)"
    if p: "p \<in> latticePoints g" for p
  proof -
    from p have "p \<in> latticePoints g'" by (simp only: same(1))
    from at_vertex_lattice [OF inv' this] mats p show ?thesis by (simp add: same(2))
  qed
  with run inv' e calls show ?thesis by blast
qed

text \<open>
  Claim C5. After \<open>fill\<close>, for every lattice vertex: when the value sampled at the vertex
  is positive the stored material is \<open>Empty\<close>, and when it is at most 0 the stored material
  is the one \<open>f.material\<close> returns for the sample point and that value; \<open>f.material\<close> is
  never called with a sampled value above 0. (\<open>fill\<close> runs to its end without a fault.)
\<close>

theorem fill_materials:
  fixes f :: "'d::{plus,minus,inverse,zero,preorder} ScalarField"
    and localToGlobal :: "'d vec3 \<Rightarrow> 'd vec3" and to_double :: "int \<Rightarrow> 'd"
    and g :: "'d UniformGrid"
  assumes inv: "grid_inv g"
  defines "lowest \<equiv> lowestPoint localToGlobal to_double g"
  shows "\<exists>g' calls. fill localToGlobal to_double g f solver = Inr (g', calls) \<and>
           (\<forall>p \<in> latticePoints g.
              (sampleValue f g lowest p > 0 \<longrightarrow> at_vertex g' (vx p) (vy p) (vz p) = Inr Empty) \<and>
              (sampleValue f g lowest p \<le> 0 \<longrightarrow>
                 at_vertex g' (vx p) (vy p) (vz p)
                   = Inr (field_material f (samplePoint g lowest p) (sampleValue f g lowest p)))) \<and>
           (\<forall>c \<in> set calls. \<not> snd c > 0 \<and> snd c = field_value f (fst c))"
proof -
  from fill_stored [OF inv, of localToGlobal to_double f solver] obtain g' calls where
    run: "fill localToGlobal to_double g f solver = Inr (g', calls)"
    and mats: "\<forall>p \<in> latticePoints g.
              at_vertex g' (vx p) (vy p) (vz p) = Inr (sampleMaterial f g lowest p)"
    and calls: "\<forall>c \<in> set calls. \<not> snd c > 0 \<and> snd c = field_value f (fst c)"
    unfolding lowest_def by blast
  have "(sampleValue f g lowest p > 0 \<longrightarrow> at_vertex g' (vx p) (vy p) (vz p) = Inr Empty) \<and>
        (sampleValue f g lowest p \<le> 0 \<longrightarrow>
           at_vertex g' (vx p) (vy p) (vz p)
             = Inr (field_material f (samplePoint g lowest p) (sampleValue f g lowest p)))"
    if p: "p \<in> latticePoints g" for p
  proof -
    have "\<not> 0 < sampleValue f g lowest p" if "sampleValue f g lowest p \<le> 0"
      using that by (simp add: less_le_not_le)
    with mats p show ?thesis by (simp add: sampleMaterial_def)
  qed
  with run calls show ?thesis by blast
qed

lemma advance_values:
  "advance s 0 c = c" "advance s 1 c = c + s" "advance s 2 c = c + s + s"
  by (simp_all add: advance_def numeral_2_eq_2)

lemma grid2_lowest: "lowestPoint (\<lambda>p. p) real_of_int grid2 = \<lparr>vx = - 1, vy = - 1, vz = - 1\<rparr>"
  by (simp add: lowestPoint_def grid2_def)

theorem fill_materials_witness:
  "grid_inv grid2 \<and>
   (\<exists>g' calls. fill (\<lambda>p. p) real_of_int grid2 planeField endpointFinder = Inr (g', calls) \<and>
      at_vertex g' 1 0 0 = Inr Soil \<and> at_vertex g' (- 1) 0 0 = Inr Empty)"
proof -
  from fill_materials [OF grid2_inv, of "\<lambda>p. p" real_of_int planeField endpointFinder]
  obtain g' calls where
    run: "fill (\<lambda>p. p) real_of_int grid2 planeField endpointFinder = Inr (g', calls)"
    and m: "\<forall>p \<in> latticePoints grid2.
      (sampleValue planeField grid2 (lowestPoint (\<lambda>p. p) real_of_int grid2) p > 0 \<longrightarrow>
         at_vertex g' (vx p) (vy p) (vz p) = Inr Empty) \<and>
      (sampleValue planeField grid2 (lowestPoint (\<lambda>p. p) real_of_int grid2) p \<le> 0 \<longrightarrow>
         at_vertex g' (vx p) (vy p) (vz p)
           = Inr (field_material planeField
                    (samplePoint grid2 (lowestPoint (\<lambda>p. p) real_of_int grid2) p)
                    (sampleValue planeField grid2 (lowestPoint (\<lambda>p. p) real_of_int grid2) p)))"
    by blast
  have l: "\<lparr>vx = 1, vy = 0, vz = 0\<rparr> \<in> latticePoints grid2"
    "\<lparr>vx = - 1, vy = 0, vz = 0\<rparr> \<in> latticePoints grid2"
    by (simp_all add: latticePoints_def grid2_def)
  have h: "m_halfSize grid2 = 1" "m_gridStep grid2 = 1" by (simp_all add: grid2_def)
  have v: "sampleValue planeField grid2 (lowestPoint (\<lambda>p. p) real_of_int grid2) \<lparr>vx = 1, vy = 0, vz = 0\<rparr> = 0"
    "sampleValue planeField grid2 (lowestPoint (\<lambda>p. p) real_of_int grid2) \<lparr>vx = - 1, vy = 0, vz = 0\<rparr> = 2"
    by (simp_all add: sampleValue_def samplePoint_def grid2_lowest h advance_values planeField_def)
  from m l(1) v(1) have a: "at_vertex g' 1 0 0 = Inr Soil"
    by (auto simp: planeField_def)
  from m l(2) v(2) have b: "at_vertex g' (- 1) 0 0 = Inr Empty"
    by auto
  from grid2_inv run a b show ?thesis by blast
qed

section \<open>Crossing edges\<close>

lemma in_concat_upto:
  "e \<in> set (concat (map F [a..b])) \<longleftrightarrow> (\<exists>k. a \<le> k \<and> k \<le> b \<and> e \<in> set (F k))"
  by auto

lemma in_scanEdges:
  "e \<in> set (scanEdges axis g E) \<longleftrightarrow>
     (\<exists>x y z. - m_halfSize g \<le> y \<and> y \<le> (if axis = 1 then m_halfSize g - 1 else m_halfSize g) \<and>
              - m_halfSize g \<le> x \<and> x \<le> (if axis = 0 then m_halfSize g - 1 else m_halfSize g) \<and>
              - m_halfSize g \<le> z \<and> z \<le> (if axis = 2 then m_halfSize g - 1 else m_halfSize g) \<and>
              e \<in> set (E \<lparr>vx = x, vy = y, vz = z\<rparr>))"
  unfolding scanEdges_def in_concat_upto by blast

lemma latticeEdge_iff:
  assumes "axis < 3"
  shows "latticeEdge axis g p \<longleftrightarrow>
     - m_halfSize g \<le> vy p \<and> vy p \<le> (if axis = 1 then m_halfSize g - 1 else m_halfSize g) \<and>
     - m_halfSize g \<le> vx p \<and> vx p \<le> (if axis = 0 then m_halfSize g - 1 else m_halfSize g) \<and>
     - m_halfSize g \<le> vz p \<and> vz p \<le> (if axis = 2 then m_halfSize g - 1 else m_halfSize g)"
proof -
  from assms consider "axis = 0" | "axis = 1" | "axis = 2" by linarith
  then show ?thesis
  proof cases
    case 1 then show ?thesis
      by (simp add: latticeEdge_def latticeEdge0_def) linarith
  next
    case 2 then show ?thesis
      by (simp add: latticeEdge_def latticeEdge1_def) linarith
  next
    case 3 then show ?thesis
      by (simp add: latticeEdge_def latticeEdge2_def) linarith
  qed
qed

lemma set_scanEdges:
  assumes "axis < 3"
  shows "e \<in> set (scanEdges axis g E) \<longleftrightarrow> (\<exists>p. latticeEdge axis g p \<and> e \<in> set (E p))"
proof
  assume "e \<in> set (scanEdges axis g E)"
  then obtain x y z where
    r: "- m_halfSize g \<le> y \<and> y \<le> (if axis = 1 then m_halfSize g - 1 else m_halfSize g) \<and>
        - m_halfSize g \<le> x \<and> x \<le> (if axis = 0 then m_halfSize g - 1 else m_halfSize g) \<and>
        - m_halfSize g \<le> z \<and> z \<le> (if axis = 2 then m_halfSize g - 1 else m_halfSize g)"
    and e: "e \<in> set (E \<lparr>vx = x, vy = y, vz = z\<rparr>)"
    unfolding in_scanEdges by blast
  from r have "latticeEdge axis g \<lparr>vx = x, vy = y, vz = z\<rparr>"
    unfolding latticeEdge_iff [OF assms] by simp
  with e show "\<exists>p. latticeEdge axis g p \<and> e \<in> set (E p)" by blast
next
  assume "\<exists>p. latticeEdge axis g p \<and> e \<in> set (E p)"
  then obtain p where p: "latticeEdge axis g p" and e: "e \<in> set (E p)" by blast
  from e have "e \<in> set (E \<lparr>vx = vx p, vy = vy p, vz = vz p\<rparr>)" by (cases p) simp
  with p show "e \<in> set (scanEdges axis g E)"
    unfolding in_scanEdges latticeEdge_iff [OF assms] by blast
qed

lemma edge_ends_in_lattice:
  assumes "axis < 3" and "latticeEdge axis g p"
  shows "p \<in> latticePoints g" and "upperEnd axis p \<in> latticePoints g"
proof -
  from assms consider "axis = 0" | "axis = 1" | "axis = 2" by linarith
  then have "p \<in> latticePoints g \<and> upperEnd axis p \<in> latticePoints g"
  proof cases
    case 1 with assms(2) show ?thesis
      unfolding latticeEdge_iff [OF assms(1)] by (simp add: latticePoints_def upperEnd_def)
  next
    case 2 with assms(2) show ?thesis
      unfolding latticeEdge_iff [OF assms(1)] by (simp add: latticePoints_def upperEnd_def)
  next
    case 3 with assms(2) show ?thesis
      unfolding latticeEdge_iff [OF assms(1)] by (simp add: latticePoints_def upperEnd_def)
  qed
  then show "p \<in> latticePoints g" and "upperEnd axis p \<in> latticePoints g" by blast+
qed

lemma distinct_concat_keys:
  assumes "distinct ks"
    and "\<And>k. k \<in> set ks \<Longrightarrow> distinct (F k)"
    and "\<And>k k'. k \<in> set ks \<Longrightarrow> k' \<in> set ks \<Longrightarrow> k \<noteq> k' \<Longrightarrow> set (F k) \<inter> set (F k') = {}"
  shows "distinct (concat (map F ks))"
  using assms
proof (induction ks)
  case Nil
  then show ?case by simp
next
  case (Cons k ks)
  have "distinct (concat (map F ks))"
    by (rule Cons.IH) (use Cons.prems in auto)
  moreover have "distinct (F k)" using Cons.prems(2) by simp
  moreover have "set (F k) \<inter> set (F k') = {}" if "k' \<in> set ks" for k'
    using Cons.prems(1) Cons.prems(3) [of k k'] that by auto
  ultimately show ?case by auto
qed

lemma distinct_scanEdges:
  assumes one: "\<And>p. distinct (map pos (E p))" and at: "\<And>p e. e \<in> set (E p) \<Longrightarrow> pos e = p"
  shows "distinct (map pos (scanEdges axis g E))"
proof -
  define hz where "hz = (if axis = 2 then m_halfSize g - 1 else m_halfSize g)"
  define hx where "hx = (if axis = 0 then m_halfSize g - 1 else m_halfSize g)"
  define hy where "hy = (if axis = 1 then m_halfSize g - 1 else m_halfSize g)"
  define Z where "Z = (\<lambda>x y. concat (map (\<lambda>z. map pos (E \<lparr>vx = x, vy = y, vz = z\<rparr>)) [- m_halfSize g .. hz]))"
  define X where "X = (\<lambda>y. concat (map (\<lambda>x. Z x y) [- m_halfSize g .. hx]))"
  have e: "map pos (scanEdges axis g E) = concat (map X [- m_halfSize g .. hy])"
    unfolding scanEdges_def X_def Z_def hx_def hy_def hz_def by (simp add: map_concat comp_def)
  have inZ: "vx q = x \<and> vy q = y" if "q \<in> set (Z x y)" for q x y
    using that at by (fastforce simp: Z_def)
  have inX: "vy q = y" if "q \<in> set (X y)" for q y
    using that inZ by (fastforce simp: X_def)
  have dZ: "distinct (Z x y)" for x y
    unfolding Z_def
  proof (rule distinct_concat_keys)
    show "distinct [- m_halfSize g .. hz]" by simp
    show "distinct (map pos (E \<lparr>vx = x, vy = y, vz = k\<rparr>))" for k by (rule one)
    show "set (map pos (E \<lparr>vx = x, vy = y, vz = k\<rparr>)) \<inter> set (map pos (E \<lparr>vx = x, vy = y, vz = k'\<rparr>)) = {}"
      if "k \<noteq> k'" for k k'
      using that at by fastforce
  qed
  have dX: "distinct (X y)" for y
    unfolding X_def
  proof (rule distinct_concat_keys)
    show "distinct [- m_halfSize g .. hx]" by simp
    show "distinct (Z k y)" for k by (rule dZ)
    show "set (Z k y) \<inter> set (Z k' y) = {}" if "k \<noteq> k'" for k k'
    proof (rule ccontr)
      assume "set (Z k y) \<inter> set (Z k' y) \<noteq> {}"
      then obtain q where "q \<in> set (Z k y)" "q \<in> set (Z k' y)" by blast
      with inZ [of q k y] inZ [of q k' y] that show False by simp
    qed
  qed
  have "distinct (concat (map X [- m_halfSize g .. hy]))"
  proof (rule distinct_concat_keys)
    show "distinct [- m_halfSize g .. hy]" by simp
    show "distinct (X k)" for k by (rule dX)
    show "set (X k) \<inter> set (X k') = {}" if "k \<noteq> k'" for k k'
    proof (rule ccontr)
      assume "set (X k) \<inter> set (X k') \<noteq> {}"
      then obtain q where "q \<in> set (X k)" "q \<in> set (X k')" by blast
      with inX [of q k] inX [of q k'] that show False by simp
    qed
  qed
  then show ?thesis by (simp only: e)
qed

lemma fill_edges_axis:
  fixes f :: "'d::{plus,minus,inverse,zero,ord} ScalarField"
    and localToGlobal :: "'d vec3 \<Rightarrow> 'd vec3" and to_double :: "int \<Rightarrow> 'd"
    and g :: "'d UniformGrid"
  assumes inv: "grid_inv g" and ax: "axis < 3"
  defines "lowest \<equiv> lowestPoint localToGlobal to_double g"
  shows "\<exists>g' calls. fill localToGlobal to_double g f solver = Inr (g', calls) \<and>
           (\<forall>p \<in> latticePoints g.
              at_vertex g' (vx p) (vy p) (vz p) = Inr (sampleMaterial f g lowest p)) \<and>
           (\<forall>e. e \<in> set (edgesOfAxis axis g') \<longleftrightarrow>
                 (\<exists>p. latticeEdge axis g p \<and> isCrossing axis f g lowest p \<and>
                      e = edgeEntry axis localToGlobal to_double f solver g lowest p)) \<and>
           distinct (map edgePos (edgesOfAxis axis g'))"
proof -
  from fill_stored [OF inv, of localToGlobal to_double f solver] obtain g' calls where
    run: "fill localToGlobal to_double g f solver = Inr (g', calls)"
    and mats: "\<forall>p \<in> latticePoints g.
              at_vertex g' (vx p) (vy p) (vz p) = Inr (sampleMaterial f g lowest p)"
    and e: "m_edgeX g' = scanEdges 0 g (edgesAt 0 localToGlobal to_double f solver g lowest)"
      "m_edgeY g' = scanEdges 1 g (edgesAt 1 localToGlobal to_double f solver g lowest)"
      "m_edgeZ g' = scanEdges 2 g (edgesAt 2 localToGlobal to_double f solver g lowest)"
    unfolding lowest_def by blast
  from ax consider "axis = 0" | "axis = 1" | "axis = 2" by linarith
  then have sc: "edgesOfAxis axis g' = scanEdges axis g (edgesAt axis localToGlobal to_double f solver g lowest)"
    by cases (simp_all add: edgesOfAxis_def e)
  have "distinct (map edgePos (scanEdges axis g (edgesAt axis localToGlobal to_double f solver g lowest)))"
  proof (rule distinct_scanEdges)
    show "distinct (map edgePos (edgesAt axis localToGlobal to_double f solver g lowest p))" for p
      by (simp add: edgesAt_def)
    show "edgePos e = p" if "e \<in> set (edgesAt axis localToGlobal to_double f solver g lowest p)" for p e
      using that by (cases p) (auto simp: edgesAt_def edgePos_def edgeEntry_def split: if_splits)
  qed
  then have d: "distinct (map edgePos (edgesOfAxis axis g'))" by (simp only: sc)
  from sc have "\<forall>e. e \<in> set (edgesOfAxis axis g') \<longleftrightarrow>
                 (\<exists>p. latticeEdge axis g p \<and> isCrossing axis f g lowest p \<and>
                      e = edgeEntry axis localToGlobal to_double f solver g lowest p)"
    by (auto simp: set_scanEdges [OF ax] edgesAt_def)
  with run mats d show ?thesis by blast
qed


text \<open>
  Claim C1. For each axis, \<open>fill\<close> records an entry for a lattice edge exactly when the
  values sampled at its two endpoints disagree under the inside predicate \<open>value \<le> 0\<close>,
  and never two entries for one edge.
  Every recorded entry belongs to such an edge of its axis; its orientation flag tells
  whether the lower endpoint is inside, exactly one endpoint is inside (the lower one when
  its value is at most 0, otherwise the upper one), and the material of the entry is the
  material \<open>fill\<close> stored for that endpoint. (\<open>fill\<close> runs to its end without a fault.)
\<close>

theorem fill_crossings:
  fixes f :: "'d::{plus,minus,inverse,zero,ord} ScalarField"
    and localToGlobal :: "'d vec3 \<Rightarrow> 'd vec3" and to_double :: "int \<Rightarrow> 'd"
    and g :: "'d UniformGrid"
  assumes inv: "grid_inv g" and ax: "axis < 3"
  defines "lowest \<equiv> lowestPoint localToGlobal to_double g"
  shows "\<exists>g' calls. fill localToGlobal to_double g f solver = Inr (g', calls) \<and>
           (\<forall>p. latticeEdge axis g p \<longrightarrow>
                ((\<exists>e \<in> set (edgesOfAxis axis g'). edgePos e = p) \<longleftrightarrow>
                   (sampleValue f g lowest p \<le> 0) \<noteq> (sampleValue f g lowest (upperEnd axis p) \<le> 0))) \<and>
           distinct (map edgePos (edgesOfAxis axis g')) \<and>
           (\<forall>e \<in> set (edgesOfAxis axis g').
                latticeEdge axis g (edgePos e) \<and> e_axis e = axis \<and>
                e_sign1 e = (sampleValue f g lowest (edgePos e) \<le> 0) \<and>
                insideEnd axis f g lowest (edgePos e)
                  = (if sampleValue f g lowest (edgePos e) \<le> 0 then edgePos e
                     else upperEnd axis (edgePos e)) \<and>
                sampleValue f g lowest (insideEnd axis f g lowest (edgePos e)) \<le> 0 \<and>
                at_vertex g' (vx (insideEnd axis f g lowest (edgePos e)))
                    (vy (insideEnd axis f g lowest (edgePos e)))
                    (vz (insideEnd axis f g lowest (edgePos e))) = Inr (e_mat e))"
proof -
  from fill_edges_axis [OF inv ax, of localToGlobal to_double f solver] obtain g' calls where
    run: "fill localToGlobal to_double g f solver = Inr (g', calls)"
    and mats: "\<forall>p \<in> latticePoints g.
              at_vertex g' (vx p) (vy p) (vz p) = Inr (sampleMaterial f g lowest p)"
    and es: "\<forall>e. e \<in> set (edgesOfAxis axis g') \<longleftrightarrow>
                 (\<exists>p. latticeEdge axis g p \<and> isCrossing axis f g lowest p \<and>
                      e = edgeEntry axis localToGlobal to_double f solver g lowest p)"
    and d: "distinct (map edgePos (edgesOfAxis axis g'))"
    unfolding lowest_def by blast
  have pos: "edgePos (edgeEntry axis localToGlobal to_double f solver g lowest p) = p" for p
    by (cases p) (simp add: edgePos_def edgeEntry_def)
  have a: "(\<exists>e \<in> set (edgesOfAxis axis g'). edgePos e = p) \<longleftrightarrow>
             (sampleValue f g lowest p \<le> 0) \<noteq> (sampleValue f g lowest (upperEnd axis p) \<le> 0)"
    if p: "latticeEdge axis g p" for p
  proof
    assume "\<exists>e \<in> set (edgesOfAxis axis g'). edgePos e = p"
    then obtain e where e: "e \<in> set (edgesOfAxis axis g')" "edgePos e = p" by blast
    from e(1) es obtain q where q: "isCrossing axis f g lowest q"
      "e = edgeEntry axis localToGlobal to_double f solver g lowest q" by blast
    from q(2) e(2) pos have "q = p" by simp
    with q(1) show "(sampleValue f g lowest p \<le> 0) \<noteq> (sampleValue f g lowest (upperEnd axis p) \<le> 0)"
      by (simp add: isCrossing_def isInside_def)
  next
    assume "(sampleValue f g lowest p \<le> 0) \<noteq> (sampleValue f g lowest (upperEnd axis p) \<le> 0)"
    then have "isCrossing axis f g lowest p" by (simp add: isCrossing_def isInside_def)
    with p es have "edgeEntry axis localToGlobal to_double f solver g lowest p \<in> set (edgesOfAxis axis g')"
      by blast
    with pos show "\<exists>e \<in> set (edgesOfAxis axis g'). edgePos e = p" by blast
  qed
  have b: "latticeEdge axis g (edgePos e) \<and> e_axis e = axis \<and>
                e_sign1 e = (sampleValue f g lowest (edgePos e) \<le> 0) \<and>
                insideEnd axis f g lowest (edgePos e)
                  = (if sampleValue f g lowest (edgePos e) \<le> 0 then edgePos e
                     else upperEnd axis (edgePos e)) \<and>
                sampleValue f g lowest (insideEnd axis f g lowest (edgePos e)) \<le> 0 \<and>
                at_vertex g' (vx (insideEnd axis f g lowest (edgePos e)))
                    (vy (insideEnd axis f g lowest (edgePos e)))
                    (vz (insideEnd axis f g lowest (edgePos e))) = Inr (e_mat e)"
    if e: "e \<in> set (edgesOfAxis axis g')" for e
  proof -
    from e es obtain p where p: "latticeEdge axis g p" "isCrossing axis f g lowest p"
      and ee: "e = edgeEntry axis localToGlobal to_double f solver g lowest p" by blast
    have ep: "edgePos e = p" unfolding ee by (rule pos)
    note ends = edge_ends_in_lattice [OF ax p(1)]
    have i: "insideEnd axis f g lowest p \<in> latticePoints g"
      using ends by (simp add: insideEnd_def)
    have m: "e_mat e = sampleMaterial f g lowest (insideEnd axis f g lowest p)"
      unfolding ee by (simp add: edgeEntry_def insideEnd_def)
    have s: "sampleValue f g lowest (insideEnd axis f g lowest p) \<le> 0"
      using p(2) by (auto simp: isCrossing_def isInside_def insideEnd_def)
    from mats i m have "at_vertex g' (vx (insideEnd axis f g lowest p))
                    (vy (insideEnd axis f g lowest p))
                    (vz (insideEnd axis f g lowest p)) = Inr (e_mat e)" by simp
    moreover have "e_axis e = axis" "e_sign1 e = (sampleValue f g lowest p \<le> 0)"
      unfolding ee by (simp_all add: edgeEntry_def isInside_def)
    moreover have "insideEnd axis f g lowest p
                  = (if sampleValue f g lowest p \<le> 0 then p else upperEnd axis p)"
      by (simp add: insideEnd_def isInside_def)
    ultimately show ?thesis using p(1) s unfolding ep by blast
  qed
  from run a d b show ?thesis by blast
qed

theorem fill_crossings_witness:
  "grid_inv grid2 \<and> (0::nat) < 3 \<and>
   latticeEdge 0 grid2 \<lparr>vx = 0, vy = 0, vz = 0\<rparr> \<and> latticeEdge 0 grid2 \<lparr>vx = - 1, vy = 0, vz = 0\<rparr> \<and>
   (\<exists>g' calls. fill (\<lambda>p. p) real_of_int grid2 planeField endpointFinder = Inr (g', calls) \<and>
      (\<exists>e \<in> set (m_edgeX g'). edgePos e = \<lparr>vx = 0, vy = 0, vz = 0\<rparr> \<and> e_axis e = 0 \<and>
           e_sign1 e = False \<and> at_vertex g' 1 0 0 = Inr (e_mat e)) \<and>
      \<not> (\<exists>e \<in> set (m_edgeX g'). edgePos e = \<lparr>vx = - 1, vy = 0, vz = 0\<rparr>))"
proof -
  define L where "L = lowestPoint (\<lambda>p. p) real_of_int grid2"
  have ax: "(0::nat) < 3" by simp
  from fill_crossings [OF grid2_inv ax, where localToGlobal = "\<lambda>p. p" and to_double = real_of_int
      and f = planeField and solver = endpointFinder]
  obtain g' calls where
    run: "fill (\<lambda>p. p) real_of_int grid2 planeField endpointFinder = Inr (g', calls)"
    and c: "\<forall>p. latticeEdge 0 grid2 p \<longrightarrow>
                ((\<exists>e \<in> set (edgesOfAxis 0 g'). edgePos e = p) \<longleftrightarrow>
                   (sampleValue planeField grid2 L p \<le> 0) \<noteq> (sampleValue planeField grid2 L (upperEnd 0 p) \<le> 0))"
    and e: "\<forall>e \<in> set (edgesOfAxis 0 g').
                latticeEdge 0 grid2 (edgePos e) \<and> e_axis e = 0 \<and>
                e_sign1 e = (sampleValue planeField grid2 L (edgePos e) \<le> 0) \<and>
                insideEnd 0 planeField grid2 L (edgePos e)
                  = (if sampleValue planeField grid2 L (edgePos e) \<le> 0 then edgePos e
                     else upperEnd 0 (edgePos e)) \<and>
                sampleValue planeField grid2 L (insideEnd 0 planeField grid2 L (edgePos e)) \<le> 0 \<and>
                at_vertex g' (vx (insideEnd 0 planeField grid2 L (edgePos e)))
                    (vy (insideEnd 0 planeField grid2 L (edgePos e)))
                    (vz (insideEnd 0 planeField grid2 L (edgePos e))) = Inr (e_mat e)"
    unfolding L_def by blast
  have ex: "edgesOfAxis 0 g' = m_edgeX g'" by (simp add: edgesOfAxis_def)
  have l: "latticeEdge 0 grid2 \<lparr>vx = 0, vy = 0, vz = 0\<rparr>" "latticeEdge 0 grid2 \<lparr>vx = - 1, vy = 0, vz = 0\<rparr>"
    by (simp_all add: latticeEdge_def latticeEdge0_def grid2_def)
  have h: "m_halfSize grid2 = 1" "m_gridStep grid2 = 1" by (simp_all add: grid2_def)
  have u: "upperEnd 0 \<lparr>vx = 0, vy = 0, vz = 0\<rparr> = \<lparr>vx = 1, vy = 0, vz = 0\<rparr>"
    "upperEnd 0 \<lparr>vx = - 1, vy = 0, vz = 0\<rparr> = \<lparr>vx = 0, vy = 0, vz = 0\<rparr>"
    by (simp_all add: upperEnd_def)
  have v: "sampleValue planeField grid2 L \<lparr>vx = 0, vy = 0, vz = 0\<rparr> = 1"
    "sampleValue planeField grid2 L \<lparr>vx = 1, vy = 0, vz = 0\<rparr> = 0"
    "sampleValue planeField grid2 L \<lparr>vx = - 1, vy = 0, vz = 0\<rparr> = 2"
    by (simp_all add: L_def sampleValue_def samplePoint_def grid2_lowest h advance_values planeField_def)
  from c l(2) have "(\<exists>e \<in> set (m_edgeX g'). edgePos e = \<lparr>vx = - 1, vy = 0, vz = 0\<rparr>) \<longleftrightarrow>
      (sampleValue planeField grid2 L \<lparr>vx = - 1, vy = 0, vz = 0\<rparr> \<le> 0)
        \<noteq> (sampleValue planeField grid2 L (upperEnd 0 \<lparr>vx = - 1, vy = 0, vz = 0\<rparr>) \<le> 0)"
    unfolding ex by blast
  then have n: "\<not> (\<exists>e \<in> set (m_edgeX g'). edgePos e = \<lparr>vx = - 1, vy = 0, vz = 0\<rparr>)"
    by (simp add: u v)
  from c l(1) have "(\<exists>e \<in> set (m_edgeX g'). edgePos e = \<lparr>vx = 0, vy = 0, vz = 0\<rparr>) \<longleftrightarrow>
      (sampleValue planeField grid2 L \<lparr>vx = 0, vy = 0, vz = 0\<rparr> \<le> 0)
        \<noteq> (sampleValue planeField grid2 L (upperEnd 0 \<lparr>vx = 0, vy = 0, vz = 0\<rparr>) \<le> 0)"
    unfolding ex by blast
  then have "\<exists>e \<in> set (m_edgeX g'). edgePos e = \<lparr>vx = 0, vy = 0, vz = 0\<rparr>"
    by (simp add: u v)
  then obtain e0 where e0: "e0 \<in> set (m_edgeX g')" "edgePos e0 = \<lparr>vx = 0, vy = 0, vz = 0\<rparr>"
    by blast
  from e e0(1) have "e_axis e0 = 0 \<and>
      e_sign1 e0 = (sampleValue planeField grid2 L (edgePos e0) \<le> 0) \<and>
      insideEnd 0 planeField grid2 L (edgePos e0)
        = (if sampleValue planeField grid2 L (edgePos e0) \<le> 0 then edgePos e0
           else upperEnd 0 (edgePos e0)) \<and>
      at_vertex g' (vx (insideEnd 0 planeField grid2 L (edgePos e0)))
          (vy (insideEnd 0 planeField grid2 L (edgePos e0)))
          (vz (insideEnd 0 planeField grid2 L (edgePos e0))) = Inr (e_mat e0)"
    unfolding ex by blast
  then have "e_axis e0 = 0 \<and> e_sign1 e0 = False \<and> at_vertex g' 1 0 0 = Inr (e_mat e0)"
    unfolding e0(2) by (elim conjE) (simp add: u v)
  with e0 have "\<exists>e \<in> set (m_edgeX g'). edgePos e = \<lparr>vx = 0, vy = 0, vz = 0\<rparr> \<and> e_axis e = 0 \<and>
           e_sign1 e = False \<and> at_vertex g' 1 0 0 = Inr (e_mat e)" by blast
  with grid2_inv ax l run n show ?thesis by blast
qed

section \<open>Offsets\<close>











end
